theory Spec2Isabelle
  imports Complex_Main "HOL-Library.AList"
begin

section \<open>The sliding-window rate limiter\<close>

text \<open>Source: \<^verbatim>\<open>src/rate_limiter.py\<close>, class \<^verbatim>\<open>RateLimiter\<close>.\<close>

text \<open>
  Timestamps are the values of \<^verbatim>\<open>time.time()\<close>; they are modelled as real numbers, so the
  rounding of floating-point addition is abstracted away.  Every function that reads the
  clock takes the value read as its first argument \<open>now\<close>.

  A Python \<^verbatim>\<open>dict\<close> is an association list in insertion order: storing under an
  existing key keeps the key's position, storing under a new key appends
  (\<open>AList.update\<close>), \<^verbatim>\<open>del\<close> removes the key (\<open>AList.delete\<close>), and a lookup is
  \<open>map_of\<close>.  A \<^verbatim>\<open>deque\<close> is a list, oldest entry first.  Calls to \<^verbatim>\<open>logging\<close> in the
  limiter itself are not modelled.
\<close>

type_synonym time = real

type_synonym 'v dict = "(string \<times> 'v) list"

record performance_stats =
  total_requests :: int
  blocked_requests :: int
  cleanup_runs :: int

record RateLimiter =
  user_commands :: "time list dict"
  user_tasks_created :: "time list dict"
  blocked_users :: "time dict"
  commands_per_minute :: int
  tasks_per_hour :: int
  block_duration :: int
  performance_stats :: performance_stats

text \<open>\<^verbatim>\<open>RateLimiter.__init__\<close>\<close>

definition RateLimiter_init :: RateLimiter where
  "RateLimiter_init =
     \<lparr> user_commands = [], user_tasks_created = [], blocked_users = [],
       commands_per_minute = 30, tasks_per_hour = 100, block_duration = 300,
       performance_stats = \<lparr> total_requests = 0, blocked_requests = 0, cleanup_runs = 0 \<rparr> \<rparr>"

text \<open>
  \<^verbatim>\<open>while queue and queue[0] < cutoff: queue.popleft()\<close>: the loop drops the leading
  entries that are strictly older than the cutoff and stops at the first one that is not.
\<close>

fun evict :: "time \<Rightarrow> time list \<Rightarrow> time list" where
  "evict cutoff [] = []"
| "evict cutoff (t # queue) = (if t < cutoff then evict cutoff queue else t # queue)"

text \<open>Reading \<^verbatim>\<open>self.user_commands[user_id]\<close> of a \<^verbatim>\<open>defaultdict(deque)\<close>: a missing key
  reads as the empty deque (and the entry is created, which the callers below write back).\<close>

definition queue_of :: "time list dict \<Rightarrow> string \<Rightarrow> time list" where
  "queue_of d user_id = (case map_of d user_id of None \<Rightarrow> [] | Some queue \<Rightarrow> queue)"

definition bump_total :: "RateLimiter \<Rightarrow> RateLimiter" where
  "bump_total s =
     s\<lparr>performance_stats :=
         (performance_stats s)\<lparr>total_requests := total_requests (performance_stats s) + 1\<rparr>\<rparr>"

definition bump_blocked :: "RateLimiter \<Rightarrow> RateLimiter" where
  "bump_blocked s =
     s\<lparr>performance_stats :=
         (performance_stats s)\<lparr>blocked_requests := blocked_requests (performance_stats s) + 1\<rparr>\<rparr>"

text \<open>The two branches on \<^verbatim>\<open>command_type\<close> of \<^verbatim>\<open>is_rate_limited\<close>, after the block check.
  Any other \<^verbatim>\<open>command_type\<close> falls through to \<^verbatim>\<open>return False\<close>.\<close>

definition check_window :: "time \<Rightarrow> string \<Rightarrow> string \<Rightarrow> RateLimiter \<Rightarrow> bool \<times> RateLimiter" where
  "check_window now user_id command_type s =
     (if command_type = ''command'' then
        (let queue = evict (now - 60) (queue_of (user_commands s) user_id) in
         if int (length queue) \<ge> commands_per_minute s then
           (True, bump_blocked
              (s\<lparr>user_commands := AList.update user_id queue (user_commands s),
                 blocked_users :=
                   AList.update user_id (now + of_int (block_duration s)) (blocked_users s)\<rparr>))
         else
           (False, s\<lparr>user_commands := AList.update user_id (queue @ [now]) (user_commands s)\<rparr>))
      else if command_type = ''task'' then
        (let queue = evict (now - 3600) (queue_of (user_tasks_created s) user_id) in
         if int (length queue) \<ge> tasks_per_hour s then
           (True, bump_blocked
              (s\<lparr>user_tasks_created := AList.update user_id queue (user_tasks_created s),
                 blocked_users :=
                   AList.update user_id (now + of_int (block_duration s)) (blocked_users s)\<rparr>))
         else
           (False,
            s\<lparr>user_tasks_created := AList.update user_id (queue @ [now]) (user_tasks_created s)\<rparr>))
      else (False, s))"

text \<open>\<^verbatim>\<open>RateLimiter.is_rate_limited(user_id, command_type)\<close>; the result \<open>True\<close> means
  rate limited (denied), \<open>False\<close> means allowed.\<close>

definition is_rate_limited :: "time \<Rightarrow> string \<Rightarrow> string \<Rightarrow> RateLimiter \<Rightarrow> bool \<times> RateLimiter" where
  "is_rate_limited now user_id command_type s =
     (let s1 = bump_total s in
      case map_of (blocked_users s1) user_id of
        Some until \<Rightarrow>
          if now < until then (True, bump_blocked s1)
          else check_window now user_id command_type
                 (s1\<lparr>blocked_users := AList.delete user_id (blocked_users s1)\<rparr>)
      | None \<Rightarrow> check_window now user_id command_type s1)"

text \<open>\<^verbatim>\<open>RateLimiter.get_remaining_time\<close>\<close>

definition get_remaining_time :: "time \<Rightarrow> string \<Rightarrow> RateLimiter \<Rightarrow> time" where
  "get_remaining_time now user_id s =
     (case map_of (blocked_users s) user_id of
        Some until \<Rightarrow> max 0 (until - now)
      | None \<Rightarrow> 0)"

text \<open>
  \<^verbatim>\<open>RateLimiter.cleanup_old_entries\<close>.  Each of the three loops runs over a snapshot of the
  keys (\<^verbatim>\<open>list(d.keys())\<close>) and updates the dictionary key by key.
\<close>

definition cleanup_queue_step :: "time \<Rightarrow> time list dict \<Rightarrow> string \<Rightarrow> time list dict" where
  "cleanup_queue_step cutoff d uid =
     (case map_of d uid of
        None \<Rightarrow> d
      | Some q \<Rightarrow>
          (let q' = evict cutoff q in
           if q' = [] then AList.delete uid d else AList.update uid q' d))"

definition cleanup_queues :: "time \<Rightarrow> time list dict \<Rightarrow> time list dict" where
  "cleanup_queues cutoff d = foldl (cleanup_queue_step cutoff) d (map fst d)"

definition cleanup_block_step :: "time \<Rightarrow> time dict \<Rightarrow> string \<Rightarrow> time dict" where
  "cleanup_block_step now d uid =
     (case map_of d uid of
        None \<Rightarrow> d
      | Some until \<Rightarrow> if now \<ge> until then AList.delete uid d else d)"

definition cleanup_blocks :: "time \<Rightarrow> time dict \<Rightarrow> time dict" where
  "cleanup_blocks now d = foldl (cleanup_block_step now) d (map fst d)"

definition cleanup_old_entries :: "time \<Rightarrow> RateLimiter \<Rightarrow> RateLimiter" where
  "cleanup_old_entries now s =
     s\<lparr>user_commands := cleanup_queues (now - 60) (user_commands s),
       user_tasks_created := cleanup_queues (now - 3600) (user_tasks_created s),
       blocked_users := cleanup_blocks now (blocked_users s),
       performance_stats :=
         (performance_stats s)\<lparr>cleanup_runs := cleanup_runs (performance_stats s) + 1\<rparr>\<rparr>"

text \<open>\<^verbatim>\<open>RateLimiter.get_stats\<close>: the three counters, and the sizes computed from the maps.\<close>

record stats_report =
  report_total_requests :: int
  report_blocked_requests :: int
  report_cleanup_runs :: int
  active_users :: nat
  report_blocked_users :: nat
  command_queues :: nat
  task_queues :: nat

definition get_stats :: "RateLimiter \<Rightarrow> stats_report" where
  "get_stats s =
     \<lparr> report_total_requests = total_requests (performance_stats s),
       report_blocked_requests = blocked_requests (performance_stats s),
       report_cleanup_runs = cleanup_runs (performance_stats s),
       active_users = length (user_commands s) + length (user_tasks_created s),
       report_blocked_users = length (blocked_users s),
       command_queues = sum_list (map (\<lambda>(uid, q). length q) (user_commands s)),
       task_queues = sum_list (map (\<lambda>(uid, q). length q) (user_tasks_created s)) \<rparr>"

text \<open>The admin commands \<^verbatim>\<open>ratelimiter_unblock\<close> and \<^verbatim>\<open>ratelimiter_set\<close>
  (\<^verbatim>\<open>setattr(rate_limiter, limit_type, max(0, value))\<close>).\<close>

definition ratelimiter_unblock :: "string \<Rightarrow> RateLimiter \<Rightarrow> RateLimiter" where
  "ratelimiter_unblock user_id s =
     (case map_of (blocked_users s) user_id of
        Some until \<Rightarrow> s\<lparr>blocked_users := AList.delete user_id (blocked_users s)\<rparr>
      | None \<Rightarrow> s)"

definition ratelimiter_set :: "string \<Rightarrow> int \<Rightarrow> RateLimiter \<Rightarrow> RateLimiter" where
  "ratelimiter_set limit_type v s =
     (if limit_type = ''commands_per_minute'' then s\<lparr>commands_per_minute := max 0 v\<rparr>
      else if limit_type = ''tasks_per_hour'' then s\<lparr>tasks_per_hour := max 0 v\<rparr>
      else if limit_type = ''block_duration'' then s\<lparr>block_duration := max 0 v\<rparr>
      else s)"

text \<open>A sequence of \<^verbatim>\<open>is_rate_limited\<close> calls, each with the clock value it reads, the
  user and the kind; the results are collected in order.\<close>

fun run_requests :: "(time \<times> string \<times> string) list \<Rightarrow> RateLimiter \<Rightarrow> bool list \<times> RateLimiter" where
  "run_requests [] s = ([], s)"
| "run_requests ((now, user_id, command_type) # rest) s =
     (let (r, s') = is_rate_limited now user_id command_type s;
          (rs, s'') = run_requests rest s'
      in (r # rs, s''))"

text \<open>Every dictionary of the limiter has each key once, as a Python \<^verbatim>\<open>dict\<close> does.\<close>

definition keys_distinct :: "RateLimiter \<Rightarrow> bool" where
  "keys_distinct s \<longleftrightarrow>
     distinct (map fst (user_commands s)) \<and> distinct (map fst (user_tasks_created s)) \<and>
     distinct (map fst (blocked_users s))"

text \<open>No window holds more timestamps than its configured limit.\<close>

definition windows_bounded :: "RateLimiter \<Rightarrow> bool" where
  "windows_bounded s \<longleftrightarrow>
     list_all (\<lambda>(uid, q). int (length q) \<le> commands_per_minute s) (user_commands s) \<and>
     list_all (\<lambda>(uid, q). int (length q) \<le> tasks_per_hour s) (user_tasks_created s)"


text \<open>Concrete request sequences used as examples below: 100 task creations at time 0 and
  one more at time 100; 30 commands at time 0 and one more at time 10; one command and one
  task creation at time 0.\<close>

definition task_burst :: "(time \<times> string \<times> string) list" where
  "task_burst = replicate 100 (0, ''u'', ''task'') @ [(100, ''u'', ''task'')]"

definition command_burst :: "(time \<times> string \<times> string) list" where
  "command_burst = replicate 30 (0, ''u'', ''command'') @ [(10, ''u'', ''command'')]"

definition after_task_burst :: RateLimiter where
  "after_task_burst = snd (run_requests task_burst RateLimiter_init)"

definition after_command_burst :: RateLimiter where
  "after_command_burst = snd (run_requests command_burst RateLimiter_init)"

definition one_of_each :: RateLimiter where
  "one_of_each =
     snd (run_requests [(0, ''u'', ''command''), (0, ''u'', ''task'')] RateLimiter_init)"



section \<open>The recurrence calculator\<close>

text \<open>Source: \<^verbatim>\<open>src/Reservation.py\<close>, the two definitions of \<^verbatim>\<open>calculate_next_deadline\<close>
  (lines 80--95 and lines 769--787).\<close>

text \<open>The exceptions that the modelled code can raise.\<close>

datatype error = ValueError | OverflowError | AttributeError | TypeError | OSError

text \<open>
  A timezone-aware \<^verbatim>\<open>datetime\<close>.  The deadlines handled here carry a \<^verbatim>\<open>pytz\<close> time zone
  object, whose offset from UTC is fixed; it is kept as \<open>utcoffset\<close>, in seconds.
  Arithmetic on such a value keeps the time zone object, so the offset does not change.
\<close>

record datetime =
  year :: int
  month :: int
  day :: int
  hour :: int
  minute :: int
  second :: int
  microsecond :: int
  utcoffset :: int

text \<open>The proleptic Gregorian calendar of \<^verbatim>\<open>datetime\<close>.\<close>

definition is_leap :: "int \<Rightarrow> bool" where
  "is_leap y \<longleftrightarrow> y mod 4 = 0 \<and> (y mod 100 \<noteq> 0 \<or> y mod 400 = 0)"

definition days_in_month :: "int \<Rightarrow> int \<Rightarrow> int" where
  "days_in_month y m =
     (if m = 2 then (if is_leap y then 29 else 28)
      else if m = 4 \<or> m = 6 \<or> m = 9 \<or> m = 11 then 30 else 31)"

text \<open>The values a \<^verbatim>\<open>datetime\<close> object can hold (\<^verbatim>\<open>MINYEAR = 1\<close>, \<^verbatim>\<open>MAXYEAR = 9999\<close>).\<close>

definition valid_datetime :: "datetime \<Rightarrow> bool" where
  "valid_datetime d \<longleftrightarrow>
     1 \<le> year d \<and> year d \<le> 9999 \<and> 1 \<le> month d \<and> month d \<le> 12 \<and>
     1 \<le> day d \<and> day d \<le> days_in_month (year d) (month d) \<and>
     0 \<le> hour d \<and> hour d < 24 \<and> 0 \<le> minute d \<and> minute d < 60 \<and>
     0 \<le> second d \<and> second d < 60 \<and> 0 \<le> microsecond d \<and> microsecond d < 1000000"

text \<open>A calendar date, with no upper bound on the year.\<close>

definition wf_date :: "datetime \<Rightarrow> bool" where
  "wf_date d \<longleftrightarrow>
     1 \<le> year d \<and> 1 \<le> month d \<and> month d \<le> 12 \<and>
     1 \<le> day d \<and> day d \<le> days_in_month (year d) (month d)"

text \<open>\<^verbatim>\<open>datetime.toordinal\<close>: the number of the day, counting 0001-01-01 as day 1; and the
  instant a value denotes, in microseconds since 0001-01-01T00:00 UTC.\<close>

definition days_before_year :: "int \<Rightarrow> int" where
  "days_before_year y = (y - 1) * 365 + (y - 1) div 4 - (y - 1) div 100 + (y - 1) div 400"

definition days_before_month :: "int \<Rightarrow> int \<Rightarrow> int" where
  "days_before_month y m =
     (if m = 1 then 0 else if m = 2 then 31 else if m = 3 then 59 else if m = 4 then 90
      else if m = 5 then 120 else if m = 6 then 151 else if m = 7 then 181
      else if m = 8 then 212 else if m = 9 then 243 else if m = 10 then 273
      else if m = 11 then 304 else 334) + (if m > 2 \<and> is_leap y then 1 else 0)"

definition toordinal :: "datetime \<Rightarrow> int" where
  "toordinal d = days_before_year (year d) + days_before_month (year d) (month d) + day d"

definition instant :: "datetime \<Rightarrow> int" where
  "instant d =
     (((toordinal d - 1) * 86400 + hour d * 3600 + minute d * 60 + second d - utcoffset d) * 1000000
      + microsecond d)"

text \<open>
  \<^verbatim>\<open>d + timedelta(days=n)\<close> moves the calendar date forward by \<open>n\<close> days and keeps the time
  of day and the time zone; it raises \<^verbatim>\<open>OverflowError\<close> when the result would be after
  9999-12-31.
\<close>

definition next_day :: "datetime \<Rightarrow> datetime" where
  "next_day d =
     (if day d < days_in_month (year d) (month d) then d\<lparr>day := day d + 1\<rparr>
      else if month d < 12 then d\<lparr>month := month d + 1, day := 1\<rparr>
      else d\<lparr>year := year d + 1, month := 1, day := 1\<rparr>)"

fun shift_days :: "nat \<Rightarrow> datetime \<Rightarrow> datetime" where
  "shift_days 0 d = d"
| "shift_days (Suc n) d = shift_days n (next_day d)"

definition add_days :: "datetime \<Rightarrow> nat \<Rightarrow> error + datetime" where
  "add_days d n = (let r = shift_days n d in if year r > 9999 then Inl OverflowError else Inr r)"

text \<open>\<^verbatim>\<open>d.replace(year=y, month=m)\<close>: raises \<^verbatim>\<open>ValueError\<close> when a field is out of range,
  in particular when the day does not exist in the new month.\<close>

definition replace_year_month :: "datetime \<Rightarrow> int \<Rightarrow> int \<Rightarrow> error + datetime" where
  "replace_year_month d y m =
     (if y < 1 \<or> y > 9999 then Inl ValueError
      else if m < 1 \<or> m > 12 then Inl ValueError
      else if day d < 1 \<or> day d > days_in_month y m then Inl ValueError
      else Inr (d\<lparr>year := y, month := m\<rparr>))"

text \<open>\<^verbatim>\<open>str.lower\<close>.  A Python string is represented by its UTF-8 encoding, so an ASCII literal
  of the source is the same literal here.  \<^verbatim>\<open>str.lower\<close> follows the Unicode case mapping.
  Besides the letters \<open>A\<close> to \<open>Z\<close>, exactly two characters have a lowercase form that contains
  an ASCII character: the Kelvin sign U+212A (bytes E2 84 AA), which becomes \<open>k\<close>, and the
  capital I with dot above U+0130 (bytes C4 B0), which becomes \<open>i\<close> followed by U+0307 (bytes
  CC 87).  The lowercase form of any other non-ASCII character is a non-empty string of non-ASCII
  characters; the Unicode table is not carried here, and the bytes of the character itself stand
  in its place.  The result is thus equal to a given ASCII string exactly when the Python result
  is, which is the only use that the source makes of it.\<close>

definition lower_char :: "char \<Rightarrow> char" where
  "lower_char c =
     (case map_of (zip ''ABCDEFGHIJKLMNOPQRSTUVWXYZ'' ''abcdefghijklmnopqrstuvwxyz'') c of
        Some l \<Rightarrow> l
      | None \<Rightarrow> c)"

fun lower :: "string \<Rightarrow> string" where
  "lower [] = []"
| "lower (c # s) =
     (if c = CHR 0xE2 \<and> take 2 s = [CHR 0x84, CHR 0xAA] then CHR ''k'' # lower (drop 2 s)
      else if c = CHR 0xC4 \<and> take 1 s = [CHR 0xB0] then
        CHR ''i'' # CHR 0xCC # CHR 0x87 # lower (drop 1 s)
      else lower_char c # lower s)"

declare lower.simps [simp del]

text \<open>\<^verbatim>\<open>calculate_next_deadline\<close>, lines 80--95.  The handler of the inner \<^verbatim>\<open>try\<close> is a
  bare \<^verbatim>\<open>except:\<close>; an exception raised anywhere else reaches the caller.\<close>

definition calculate_next_deadline :: "datetime \<Rightarrow> string \<Rightarrow> error + datetime option" where
  "calculate_next_deadline last_deadline recurring =
     (if lower recurring = ''daily'' then map_sum id Some (add_days last_deadline 1)
      else if lower recurring = ''weekly'' then map_sum id Some (add_days last_deadline 7)
      else if lower recurring = ''monthly'' then
        (let month0 = month last_deadline + 1;
             year0 = year last_deadline;
             month1 = (if month0 > 12 then 1 else month0);
             year1 = (if month0 > 12 then year0 + 1 else year0)
         in case replace_year_month last_deadline year1 month1 of
              Inr d \<Rightarrow> Inr (Some d)
            | Inl e \<Rightarrow> map_sum id Some (add_days last_deadline 30))
      else Inr None)"

text \<open>\<^verbatim>\<open>calculate_next_deadline\<close>, lines 769--787: the inner handler catches \<^verbatim>\<open>ValueError\<close>
  only, and an outer \<^verbatim>\<open>except Exception\<close> logs the error and falls through to
  \<^verbatim>\<open>return None\<close>.\<close>

definition calculate_next_deadline_improved :: "datetime \<Rightarrow> string \<Rightarrow> datetime option" where
  "calculate_next_deadline_improved last_deadline recurring =
     (case
        (if lower recurring = ''daily'' then map_sum id Some (add_days last_deadline 1)
         else if lower recurring = ''weekly'' then map_sum id Some (add_days last_deadline 7)
         else if lower recurring = ''monthly'' then
           (let month0 = month last_deadline + 1;
                year0 = year last_deadline;
                month1 = (if month0 > 12 then 1 else month0);
                year1 = (if month0 > 12 then year0 + 1 else year0)
            in case replace_year_month last_deadline year1 month1 of
                 Inr d \<Rightarrow> Inr (Some d)
               | Inl ValueError \<Rightarrow> map_sum id Some (add_days last_deadline 30)
               | Inl e \<Rightarrow> Inl e)
         else Inr None)
      of Inr r \<Rightarrow> r
       | Inl e \<Rightarrow> None)"

text \<open>A \<^verbatim>\<open>datetime\<close> at a full minute: year, month, day, hour, minute, UTC offset in seconds.\<close>

definition mk_datetime :: "int \<Rightarrow> int \<Rightarrow> int \<Rightarrow> int \<Rightarrow> int \<Rightarrow> int \<Rightarrow> datetime" where
  "mk_datetime y m d h mi off =
     \<lparr> year = y, month = m, day = d, hour = h, minute = mi, second = 0, microsecond = 0,
       utcoffset = off \<rparr>"

text \<open>Two rule names with a non-ASCII letter: \<open>WEEKLY\<close> written with the Kelvin sign U+212A for
  its \<open>K\<close>, and \<open>DAILY\<close> written with the capital I with dot above U+0130 for its \<open>I\<close>.\<close>

definition kelvin_weekly :: string where
  "kelvin_weekly = ''WEE'' @ [CHR 0xE2, CHR 0x84, CHR 0xAA] @ ''LY''"

definition dotted_daily :: string where
  "dotted_daily = ''DA'' @ [CHR 0xC4, CHR 0xB0] @ ''LY''"

section \<open>The recurring-task scheduler\<close>

text \<open>Source: \<^verbatim>\<open>src/Reservation.py\<close>, the two definitions of \<^verbatim>\<open>recurring_task_loop\<close>
  (lines 327--342 and lines 2095--2132).\<close>

text \<open>
  The columns of the \<^verbatim>\<open>tasks\<close> table that the loop reads and writes; a \<^verbatim>\<open>NULL\<close> in
  \<^verbatim>\<open>recurring\<close> is \<open>None\<close>.  The database is the list of task rows in insertion order,
  the \<^verbatim>\<open>task_assignments\<close> table, and the next value of the \<^verbatim>\<open>AUTOINCREMENT\<close> key.
  Statements are taken to succeed, except that an assignment that is already present
  violates the primary key; the other constraints of the schema are not modelled.
\<close>

record task_row =
  task_id :: nat
  task :: string
  deadline :: string
  priority :: int
  status :: string
  recurring :: "string option"
  owner_id :: string

record database =
  tasks :: "task_row list"
  task_assignments :: "(nat \<times> string) list"
  next_task_id :: nat

text \<open>
  What the loop takes from outside the repository, as parameters:
  \<^verbatim>\<open>pytz.timezone(get_timezone(owner_id))\<close>,
  \<^verbatim>\<open>datetime.fromisoformat(deadline).astimezone(tz)\<close>, \<^verbatim>\<open>datetime.now(tz)\<close>,
  \<^verbatim>\<open>d.astimezone(pytz.UTC).isoformat()\<close>, and the value read from
  \<^verbatim>\<open>db.conn.lastrowid\<close> (an attribute that \<^verbatim>\<open>sqlite3.Connection\<close> objects do not define, so
  that the read raises \<^verbatim>\<open>AttributeError\<close>; the theorems below hold whatever it yields).
  One environment stands for one reading of the clock.
\<close>

record 'tz environment =
  timezone_of :: "string \<Rightarrow> error + 'tz"
  fromisoformat_in :: "'tz \<Rightarrow> string \<Rightarrow> error + datetime"
  now_in :: "'tz \<Rightarrow> datetime"
  utc_isoformat :: "datetime \<Rightarrow> string"
  lastrowid :: "database \<Rightarrow> error + nat"

text \<open>\<^verbatim>\<open>WHERE recurring IS NOT NULL AND status='Completed'\<close>\<close>

definition completed_recurring :: "task_row \<Rightarrow> bool" where
  "completed_recurring r \<longleftrightarrow> recurring r \<noteq> None \<and> status r = ''Completed''"

text \<open>\<^verbatim>\<open>INSERT INTO tasks (task, deadline, priority, recurring, owner_id)\<close>: the status is
  the column default \<^verbatim>\<open>'Pending'\<close>, the key is fresh.\<close>

definition insert_task ::
  "string \<Rightarrow> string \<Rightarrow> int \<Rightarrow> string option \<Rightarrow> string \<Rightarrow> database \<Rightarrow> database" where
  "insert_task name dl prio rule owner db =
     db\<lparr>tasks := tasks db @
            [\<lparr> task_id = next_task_id db, task = name, deadline = dl, priority = prio,
               status = ''Pending'', recurring = rule, owner_id = owner \<rparr>],
        next_task_id := Suc (next_task_id db)\<rparr>"

text \<open>The loop that copies the assigned users; it ends at the first \<^verbatim>\<open>IntegrityError\<close>,
  which the handler of the row catches.\<close>

fun insert_assignments :: "nat \<Rightarrow> string list \<Rightarrow> database \<Rightarrow> database" where
  "insert_assignments new_task_id [] db = db"
| "insert_assignments new_task_id (user_id # rest) db =
     (if (new_task_id, user_id) \<in> set (task_assignments db) then db
      else insert_assignments new_task_id rest
             (db\<lparr>task_assignments := task_assignments db @ [(new_task_id, user_id)]\<rparr>))"

text \<open>The body of the \<^verbatim>\<open>for\<close> loop at lines 331--342.  Only the parsing of the deadline is
  inside a \<^verbatim>\<open>try\<close>; any other exception ends the run.\<close>

definition regenerate :: "'tz environment \<Rightarrow> task_row \<Rightarrow> database \<Rightarrow> error + database" where
  "regenerate env row db =
     (case timezone_of env (owner_id row) of
        Inl e \<Rightarrow> Inl e
      | Inr tz \<Rightarrow>
          (let last_deadline =
                 (case fromisoformat_in env tz (deadline row) of
                    Inr d \<Rightarrow> d
                  | Inl e \<Rightarrow> now_in env tz)
           in case recurring row of
                None \<Rightarrow> Inl AttributeError
              | Some rule \<Rightarrow>
                  (case calculate_next_deadline last_deadline rule of
                     Inl e \<Rightarrow> Inl e
                   | Inr None \<Rightarrow> Inr db
                   | Inr (Some next_deadline) \<Rightarrow>
                       Inr (insert_task (task row) (utc_isoformat env next_deadline) 0
                              (recurring row) (owner_id row) db))))"

fun recurring_task_rows ::
  "'tz environment \<Rightarrow> task_row list \<Rightarrow> database \<Rightarrow> error option \<times> database" where
  "recurring_task_rows env [] db = (None, db)"
| "recurring_task_rows env (row # rows) db =
     (case regenerate env row db of
        Inl e \<Rightarrow> (Some e, db)
      | Inr db' \<Rightarrow> recurring_task_rows env rows db')"

definition recurring_task_loop :: "'tz environment \<Rightarrow> database \<Rightarrow> error option \<times> database" where
  "recurring_task_loop env db =
     recurring_task_rows env (filter completed_recurring (tasks db)) db"

text \<open>The body of the \<^verbatim>\<open>for\<close> loop at lines 2104--2129.  Every exception is caught and
  logged for the row it occurs in, and the loop goes on with the next row.\<close>

definition regenerate_improved :: "'tz environment \<Rightarrow> task_row \<Rightarrow> database \<Rightarrow> database" where
  "regenerate_improved env row db =
     (case timezone_of env (owner_id row) of
        Inl e \<Rightarrow> db
      | Inr tz \<Rightarrow>
          (case fromisoformat_in env tz (deadline row) of
             Inl e \<Rightarrow> db
           | Inr last_deadline \<Rightarrow>
               (case recurring row of
                  None \<Rightarrow> db
                | Some rule \<Rightarrow>
                    (case calculate_next_deadline_improved last_deadline rule of
                       None \<Rightarrow> db
                     | Some next_deadline \<Rightarrow>
                         if instant next_deadline \<le> instant (now_in env tz) then
                           (let db1 = insert_task (task row) (utc_isoformat env next_deadline)
                                        (priority row) (recurring row) (owner_id row) db
                            in case lastrowid env db1 of
                                 Inl e \<Rightarrow> db1
                               | Inr new_task_id \<Rightarrow>
                                   insert_assignments new_task_id
                                     (map snd (filter (\<lambda>(t, u). t = task_id row)
                                                 (task_assignments db1)))
                                     db1)
                         else db))))"

definition recurring_task_loop_improved :: "'tz environment \<Rightarrow> database \<Rightarrow> database" where
  "recurring_task_loop_improved env db =
     foldl (\<lambda>d row. regenerate_improved env row d) db (filter completed_recurring (tasks db))"

text \<open>What a run does for one source row: nothing, an insertion with a deadline text and
  a priority, or (first definition only) the end of the run by an exception.\<close>

datatype outcome = Skip | Insert string int | Abort

definition outcome_of :: "'tz environment \<Rightarrow> task_row \<Rightarrow> outcome" where
  "outcome_of env row =
     (case timezone_of env (owner_id row) of
        Inl e \<Rightarrow> Abort
      | Inr tz \<Rightarrow>
          (case recurring row of
             None \<Rightarrow> Abort
           | Some rule \<Rightarrow>
               (case calculate_next_deadline
                       (case fromisoformat_in env tz (deadline row) of
                          Inr d \<Rightarrow> d
                        | Inl e \<Rightarrow> now_in env tz) rule of
                  Inl e \<Rightarrow> Abort
                | Inr None \<Rightarrow> Skip
                | Inr (Some next_deadline) \<Rightarrow> Insert (utc_isoformat env next_deadline) 0)))"

definition outcome_improved :: "'tz environment \<Rightarrow> task_row \<Rightarrow> outcome" where
  "outcome_improved env row =
     (case timezone_of env (owner_id row) of
        Inl e \<Rightarrow> Skip
      | Inr tz \<Rightarrow>
          (case fromisoformat_in env tz (deadline row) of
             Inl e \<Rightarrow> Skip
           | Inr last_deadline \<Rightarrow>
               (case recurring row of
                  None \<Rightarrow> Skip
                | Some rule \<Rightarrow>
                    (case calculate_next_deadline_improved last_deadline rule of
                       None \<Rightarrow> Skip
                     | Some next_deadline \<Rightarrow>
                         if instant next_deadline \<le> instant (now_in env tz)
                         then Insert (utc_isoformat env next_deadline) (priority row)
                         else Skip))))"

text \<open>The rows that a run inserts for a list of source rows, with keys from \<open>n\<close> on.\<close>

fun copies :: "(task_row \<Rightarrow> outcome) \<Rightarrow> nat \<Rightarrow> task_row list \<Rightarrow> task_row list" where
  "copies f n [] = []"
| "copies f n (row # rows) =
     (case f row of
        Skip \<Rightarrow> copies f n rows
      | Abort \<Rightarrow> []
      | Insert dl prio \<Rightarrow>
          \<lparr> task_id = n, task = task row, deadline = dl, priority = prio, status = ''Pending'',
            recurring = recurring row, owner_id = owner_id row \<rparr> # copies f (Suc n) rows)"

text \<open>An example: the environment of a deployment in UTC whose clock reads
  2024-07-01T00:00, and a store with one completed daily task.  \<open>isoformat_utc\<close> writes a
  whole-second UTC value as \<^verbatim>\<open>isoformat\<close> does.\<close>

definition digit_char :: "nat \<Rightarrow> char" where
  "digit_char n = ''0123456789'' ! (n mod 10)"

definition pad2 :: "int \<Rightarrow> string" where
  "pad2 n = [digit_char (nat n div 10), digit_char (nat n)]"

definition pad4 :: "int \<Rightarrow> string" where
  "pad4 n = [digit_char (nat n div 1000), digit_char (nat n div 100), digit_char (nat n div 10),
             digit_char (nat n)]"

definition isoformat_utc :: "datetime \<Rightarrow> string" where
  "isoformat_utc d =
     pad4 (year d) @ ''-'' @ pad2 (month d) @ ''-'' @ pad2 (day d) @ ''T'' @ pad2 (hour d) @ '':'' @
     pad2 (minute d) @ '':'' @ pad2 (second d) @ ''+00:00''"

definition utc_environment :: "unit environment" where
  "utc_environment =
     \<lparr> timezone_of = (\<lambda>owner. Inr ()),
       fromisoformat_in =
         (\<lambda>tz text. if text = ''2024-06-15T03:00:00+00:00''
                     then Inr (mk_datetime 2024 6 15 3 0 0) else Inl ValueError),
       now_in = (\<lambda>tz. mk_datetime 2024 7 1 0 0 0),
       utc_isoformat = isoformat_utc,
       lastrowid = (\<lambda>db. Inl AttributeError) \<rparr>"

definition plants_row :: task_row where
  "plants_row =
     \<lparr> task_id = 1, task = ''Water the plants'', deadline = ''2024-06-15T03:00:00+00:00'',
       priority = 2, status = ''Completed'', recurring = Some ''daily'', owner_id = ''42'' \<rparr>"

definition plants_db :: database where
  "plants_db = \<lparr> tasks = [plants_row], task_assignments = [(1, ''42'')], next_task_id = 2 \<rparr>"

definition plants_copy :: "nat \<Rightarrow> int \<Rightarrow> task_row" where
  "plants_copy n prio =
     \<lparr> task_id = n, task = ''Water the plants'', deadline = ''2024-06-16T03:00:00+00:00'',
       priority = prio, status = ''Pending'', recurring = Some ''daily'', owner_id = ''42'' \<rparr>"

section \<open>State persistence\<close>

text \<open>Source: \<^verbatim>\<open>src/rate_limiter.py\<close>, \<^verbatim>\<open>_write_json\<close>, \<^verbatim>\<open>_read_json\<close>, \<^verbatim>\<open>_save_state\<close> and
  \<^verbatim>\<open>_load_state\<close>. The snapshot is a JSON document. A value read back by \<^verbatim>\<open>json.load\<close> is a tree of
  this type; an object is kept as the list of its members in the order of the text, duplicates
  included. The text encoding itself (and with it \<^verbatim>\<open>NaN\<close> and \<^verbatim>\<open>Infinity\<close>), the lock around both
  functions and task cancellation are not part of the model.\<close>

datatype json =
    JNull
  | JBool bool
  | JInt int
  | JFloat real
  | JStr string
  | JArr "json list"
  | JObj "(string \<times> json) list"

text \<open>The Python \<^verbatim>\<open>dict\<close> that \<^verbatim>\<open>json.load\<close> builds from an object: a later member with the same
  name replaces the value of the earlier one and keeps its position.\<close>

definition py_dict :: "(string \<times> json) list \<Rightarrow> (string \<times> json) list" where
  "py_dict members = foldl (\<lambda>d (k, v). AList.update k v d) [] members"

text \<open>Iterating over a loaded value, as \<^verbatim>\<open>deque(lst)\<close> does: a list gives its items, a string its
  characters, a dict its keys; \<^verbatim>\<open>None\<close>, booleans and numbers raise \<^verbatim>\<open>TypeError\<close>.\<close>

definition py_iter :: "json \<Rightarrow> error + json list" where
  "py_iter x =
     (case x of
        JArr xs \<Rightarrow> Inr xs
      | JStr s \<Rightarrow> Inr (map (\<lambda>c. JStr [c]) s)
      | JObj members \<Rightarrow> Inr (map (\<lambda>(k, v). JStr k) (py_dict members))
      | _ \<Rightarrow> Inl TypeError)"

text \<open>\<^verbatim>\<open>x.items()\<close> and \<^verbatim>\<open>x.get(key, default)\<close> exist on dicts only; on any other loaded value the
  attribute lookup raises \<^verbatim>\<open>AttributeError\<close>.\<close>

definition py_items :: "json \<Rightarrow> error + (string \<times> json) list" where
  "py_items x = (case x of JObj members \<Rightarrow> Inr (py_dict members) | _ \<Rightarrow> Inl AttributeError)"

definition py_get :: "json \<Rightarrow> string \<Rightarrow> json \<Rightarrow> error + json" where
  "py_get x key dflt =
     (case x of
        JObj members \<Rightarrow>
          Inr (case map_of (py_dict members) key of Some v \<Rightarrow> v | None \<Rightarrow> dflt)
      | _ \<Rightarrow> Inl AttributeError)"

text \<open>\<^verbatim>\<open>dict.update(arg)\<close>, used on \<^verbatim>\<open>performance_stats\<close>: a dict argument is merged key by key,
  any other iterable must consist of pairs with a hashable first component. Keys that compare
  equal in Python (\<^verbatim>\<open>True\<close>, \<^verbatim>\<open>1\<close> and \<^verbatim>\<open>1.0\<close>) are the same key; the dict keeps the key object it had
  and keeps the entries inserted before a failing item.\<close>

definition hashable :: "json \<Rightarrow> bool" where
  "hashable x = (case x of JArr xs \<Rightarrow> False | JObj members \<Rightarrow> False | _ \<Rightarrow> True)"

definition norm_key :: "json \<Rightarrow> json" where
  "norm_key x =
     (case x of
        JBool b \<Rightarrow> JInt (if b then 1 else 0)
      | JFloat r \<Rightarrow> (if of_int \<lfloor>r\<rfloor> = r then JInt \<lfloor>r\<rfloor> else JFloat r)
      | _ \<Rightarrow> x)"

fun setitem :: "json \<Rightarrow> json \<Rightarrow> (json \<times> json) list \<Rightarrow> (json \<times> json) list" where
  "setitem k v [] = [(k, v)]"
| "setitem k v ((k', v') # d) =
     (if norm_key k = norm_key k' then (k', v) # d else (k', v') # setitem k v d)"

fun update_pairs :: "json list \<Rightarrow> (json \<times> json) list \<Rightarrow> (json \<times> json) list \<times> error option" where
  "update_pairs [] d = (d, None)"
| "update_pairs (item # rest) d =
     (case py_iter item of
        Inl e \<Rightarrow> (d, Some TypeError)
      | Inr [k, v] \<Rightarrow> if hashable k then update_pairs rest (setitem k v d) else (d, Some TypeError)
      | Inr _ \<Rightarrow> (d, Some ValueError))"

definition dict_update :: "json \<Rightarrow> (json \<times> json) list \<Rightarrow> (json \<times> json) list \<times> error option" where
  "dict_update arg d =
     (case arg of
        JObj members \<Rightarrow> (foldl (\<lambda>d (k, v). setitem (JStr k) v d) d (py_dict members), None)
      | _ \<Rightarrow>
          (case py_iter arg of
             Inl e \<Rightarrow> (d, Some TypeError)
           | Inr items \<Rightarrow> update_pairs items d))"

text \<open>The attributes of the limiter object as \<^verbatim>\<open>_load_state\<close> sees them: nothing in the loader
  checks a type, so after a load any attribute may hold any loaded value.\<close>

record py_state =
  py_user_commands :: "(string \<times> json list) list"
  py_user_tasks_created :: "(string \<times> json list) list"
  py_blocked_users :: "(string \<times> json) list"
  py_performance_stats :: "(json \<times> json) list"
  py_commands_per_minute :: json
  py_tasks_per_hour :: json
  py_block_duration :: json

text \<open>A limiter state of the typed model, seen as such an object: timestamps are floats, counters
  and limits are ints.\<close>

definition dynamic :: "RateLimiter \<Rightarrow> py_state" where
  "dynamic s =
     \<lparr> py_user_commands = map (\<lambda>(uid, q). (uid, map JFloat q)) (user_commands s),
       py_user_tasks_created = map (\<lambda>(uid, q). (uid, map JFloat q)) (user_tasks_created s),
       py_blocked_users = map (\<lambda>(uid, until). (uid, JFloat until)) (blocked_users s),
       py_performance_stats =
         [(JStr ''total_requests'', JInt (total_requests (performance_stats s))),
          (JStr ''blocked_requests'', JInt (blocked_requests (performance_stats s))),
          (JStr ''cleanup_runs'', JInt (cleanup_runs (performance_stats s)))],
       py_commands_per_minute = JInt (commands_per_minute s),
       py_tasks_per_hour = JInt (tasks_per_hour s),
       py_block_duration = JInt (block_duration s) \<rparr>"

text \<open>What \<^verbatim>\<open>_load_state\<close> finds at the path: no file, a file that \<^verbatim>\<open>_read_json\<close> fails on (with
  the exception it raises), or a file holding a JSON value. The two functions log instead of
  raising; the log records they emit are part of their result.\<close>

datatype snapshot_file = Absent | Unreadable error | Content json

datatype log_record = LogInfo string | LogError string error

text \<open>The value that \<^verbatim>\<open>_save_state\<close> builds and \<^verbatim>\<open>json.dump\<close> writes. \<^verbatim>\<open>_write_json\<close> writes a
  temporary file and renames it over the target, so a failed write leaves the previous file.\<close>

definition snapshot :: "RateLimiter \<Rightarrow> json" where
  "snapshot s =
     JObj [(''user_commands'',
              JObj (map (\<lambda>(uid, q). (uid, JArr (map JFloat q))) (user_commands s))),
           (''user_tasks_created'',
              JObj (map (\<lambda>(uid, q). (uid, JArr (map JFloat q))) (user_tasks_created s))),
           (''blocked_users'', JObj (map (\<lambda>(uid, until). (uid, JFloat until)) (blocked_users s))),
           (''performance_stats'',
              JObj [(''total_requests'', JInt (total_requests (performance_stats s))),
                    (''blocked_requests'', JInt (blocked_requests (performance_stats s))),
                    (''cleanup_runs'', JInt (cleanup_runs (performance_stats s)))]),
           (''config'',
              JObj [(''commands_per_minute'', JInt (commands_per_minute s)),
                    (''tasks_per_hour'', JInt (tasks_per_hour s)),
                    (''block_duration'', JInt (block_duration s))])]"

definition save_state :: "bool \<Rightarrow> RateLimiter \<Rightarrow> snapshot_file \<Rightarrow> snapshot_file \<times> log_record list" where
  "save_state write_ok s file =
     (if write_ok then (Content (snapshot s), [LogInfo ''Rate limiter state saved.''])
      else (file, [LogError ''Failed to save rate limiter state'' OSError]))"

text \<open>The body of the \<^verbatim>\<open>try\<close> block of \<^verbatim>\<open>_load_state\<close>, statement by statement in source order. Each
  function performs its own assignment and continues with the next statement; when a statement
  raises, the state with the assignments made so far is returned together with the exception.\<close>

fun load_queues ::
  "(string \<times> json) list \<Rightarrow> (string \<times> json list) list \<Rightarrow> (string \<times> json list) list \<times> error option" where
  "load_queues [] d = (d, None)"
| "load_queues ((uid, lst) # rest) d =
     (case py_iter lst of
        Inl e \<Rightarrow> (d, Some e)
      | Inr q \<Rightarrow> load_queues rest (AList.update uid q d))"

definition load_config :: "json \<Rightarrow> py_state \<Rightarrow> py_state \<times> error option" where
  "load_config data s =
     (case py_get data ''config'' (JObj []) of
        Inl e \<Rightarrow> (s, Some e)
      | Inr cfg \<Rightarrow>
          (case py_get cfg ''commands_per_minute'' (py_commands_per_minute s) of
             Inl e \<Rightarrow> (s, Some e)
           | Inr cpm \<Rightarrow>
               (let s1 = s\<lparr>py_commands_per_minute := cpm\<rparr> in
                case py_get cfg ''tasks_per_hour'' (py_tasks_per_hour s1) of
                  Inl e \<Rightarrow> (s1, Some e)
                | Inr tph \<Rightarrow>
                    (let s2 = s1\<lparr>py_tasks_per_hour := tph\<rparr> in
                     case py_get cfg ''block_duration'' (py_block_duration s2) of
                       Inl e \<Rightarrow> (s2, Some e)
                     | Inr bd \<Rightarrow> (s2\<lparr>py_block_duration := bd\<rparr>, None)))))"

definition load_stats :: "json \<Rightarrow> py_state \<Rightarrow> py_state \<times> error option" where
  "load_stats data s =
     (case py_get data ''performance_stats'' (JObj []) of
        Inl e \<Rightarrow> (s, Some e)
      | Inr arg \<Rightarrow>
          (case dict_update arg (py_performance_stats s) of
             (stats, Some e) \<Rightarrow> (s\<lparr>py_performance_stats := stats\<rparr>, Some e)
           | (stats, None) \<Rightarrow> load_config data (s\<lparr>py_performance_stats := stats\<rparr>)))"

definition load_blocked :: "json \<Rightarrow> py_state \<Rightarrow> py_state \<times> error option" where
  "load_blocked data s =
     (case py_get data ''blocked_users'' (JObj []) of
        Inl e \<Rightarrow> (s, Some e)
      | Inr b \<Rightarrow>
          (case py_items b of
             Inl e \<Rightarrow> (s, Some e)
           | Inr items \<Rightarrow> load_stats data (s\<lparr>py_blocked_users := items\<rparr>)))"

definition load_tasks :: "json \<Rightarrow> py_state \<Rightarrow> py_state \<times> error option" where
  "load_tasks data s =
     (case py_get data ''user_tasks_created'' (JObj []) of
        Inl e \<Rightarrow> (s, Some e)
      | Inr t \<Rightarrow>
          (case py_items t of
             Inl e \<Rightarrow> (s, Some e)
           | Inr items \<Rightarrow>
               (case load_queues items (py_user_tasks_created s) of
                  (queues, Some e) \<Rightarrow> (s\<lparr>py_user_tasks_created := queues\<rparr>, Some e)
                | (queues, None) \<Rightarrow> load_blocked data (s\<lparr>py_user_tasks_created := queues\<rparr>))))"

definition load_commands :: "json \<Rightarrow> py_state \<Rightarrow> py_state \<times> error option" where
  "load_commands data s =
     (case py_get data ''user_commands'' (JObj []) of
        Inl e \<Rightarrow> (s, Some e)
      | Inr c \<Rightarrow>
          (case py_items c of
             Inl e \<Rightarrow> (s, Some e)
           | Inr items \<Rightarrow>
               (case load_queues items (py_user_commands s) of
                  (queues, Some e) \<Rightarrow> (s\<lparr>py_user_commands := queues\<rparr>, Some e)
                | (queues, None) \<Rightarrow> load_tasks data (s\<lparr>py_user_commands := queues\<rparr>))))"

text \<open>\<^verbatim>\<open>_load_state\<close>: return at once when the path does not exist; otherwise read the file, clear
  both window maps, run the assignments, and log the outcome. \<^verbatim>\<open>except Exception\<close> only logs.\<close>

definition load_state :: "snapshot_file \<Rightarrow> py_state \<Rightarrow> py_state \<times> log_record list" where
  "load_state file s =
     (case file of
        Absent \<Rightarrow> (s, [LogInfo ''No rate limiter state file to load.''])
      | Unreadable e \<Rightarrow> (s, [LogError ''Failed to load rate limiter state'' e])
      | Content data \<Rightarrow>
          (case load_commands data (s\<lparr>py_user_commands := [], py_user_tasks_created := []\<rparr>) of
             (s', None) \<Rightarrow> (s', [LogInfo ''Rate limiter state loaded.''])
           | (s', Some e) \<Rightarrow> (s', [LogError ''Failed to load rate limiter state'' e])))"

text \<open>The reachable states: those obtained from \<^verbatim>\<open>RateLimiter()\<close> by the operations that change
  the limiter (requests, cleanup runs, and the two admin commands).\<close>

datatype operation =
    Request time string string
  | Cleanup time
  | Unblock string
  | SetLimit string int

fun apply_operation :: "operation \<Rightarrow> RateLimiter \<Rightarrow> RateLimiter" where
  "apply_operation (Request now user_id command_type) s =
     snd (is_rate_limited now user_id command_type s)"
| "apply_operation (Cleanup now) s = cleanup_old_entries now s"
| "apply_operation (Unblock user_id) s = ratelimiter_unblock user_id s"
| "apply_operation (SetLimit limit_type v) s = ratelimiter_set limit_type v s"

definition run_operations :: "operation list \<Rightarrow> RateLimiter \<Rightarrow> RateLimiter" where
  "run_operations ops s = foldl (\<lambda>s op. apply_operation op s) s ops"

text \<open>Example inputs: two commands of one user, and a snapshot whose command windows are well
  formed while its task windows are a number.\<close>

definition two_commands :: "operation list" where
  "two_commands = [Request 0 ''u'' ''command'', Request 5 ''u'' ''command'']"


section \<open>Properties of the rate limiter\<close>

lemma length_evict: "length (evict c q) \<le> length q"
  by (induction q) auto

lemma list_all_update:
  "list_all P al \<Longrightarrow> P (k, v) \<Longrightarrow> list_all P (AList.update k v al)"
  by (induction al) auto

lemma list_all_delete:
  "list_all P al \<Longrightarrow> list_all P (AList.delete k al)"
  by (induction al) auto

lemma list_all_map_of:
  "list_all P al \<Longrightarrow> map_of al k = Some v \<Longrightarrow> P (k, v)"
  by (induction al) (auto split: if_splits)

lemma queue_of_bounded:
  "list_all (\<lambda>(uid, q). int (length q) \<le> n) d \<Longrightarrow> 0 \<le> n \<Longrightarrow> int (length (queue_of d u)) \<le> n"
  by (auto simp: queue_of_def split: option.splits dest: list_all_map_of)

lemma queue_of_update: "queue_of (AList.update k v d) u = (if u = k then v else queue_of d u)"
  by (simp add: queue_of_def update_conv')

lemma check_window_config:
  "commands_per_minute (snd (check_window now u ct s)) = commands_per_minute s"
  "tasks_per_hour (snd (check_window now u ct s)) = tasks_per_hour s"
  "block_duration (snd (check_window now u ct s)) = block_duration s"
  by (simp_all add: check_window_def Let_def bump_blocked_def)

lemma is_rate_limited_config:
  "commands_per_minute (snd (is_rate_limited now u ct s)) = commands_per_minute s"
  "tasks_per_hour (snd (is_rate_limited now u ct s)) = tasks_per_hour s"
  "block_duration (snd (is_rate_limited now u ct s)) = block_duration s"
  by (simp_all add: is_rate_limited_def Let_def check_window_config bump_blocked_def bump_total_def
      split: option.splits)

lemma check_window_bounded:
  assumes "0 \<le> commands_per_minute s" "0 \<le> tasks_per_hour s" "windows_bounded s"
  shows "windows_bounded (snd (check_window now u ct s))"
proof -
  have c: "int (length (evict (now - 60) (queue_of (user_commands s) u))) \<le> commands_per_minute s"
    using queue_of_bounded[of "commands_per_minute s" "user_commands s" u] assms
      length_evict[of "now - 60" "queue_of (user_commands s) u"]
    by (simp add: windows_bounded_def)
  have t: "int (length (evict (now - 3600) (queue_of (user_tasks_created s) u))) \<le> tasks_per_hour s"
    using queue_of_bounded[of "tasks_per_hour s" "user_tasks_created s" u] assms
      length_evict[of "now - 3600" "queue_of (user_tasks_created s) u"]
    by (simp add: windows_bounded_def)
  show ?thesis
    using assms c t
    by (auto simp: check_window_def Let_def windows_bounded_def bump_blocked_def
        intro!: list_all_update)
qed

lemma is_rate_limited_bounded:
  assumes "0 \<le> commands_per_minute s" "0 \<le> tasks_per_hour s" "windows_bounded s"
  shows "windows_bounded (snd (is_rate_limited now u ct s))"
proof -
  have b: "windows_bounded (bump_total s)"
    using assms by (simp add: windows_bounded_def bump_total_def)
  have b2: "windows_bounded (bump_blocked (bump_total s))"
    using assms by (simp add: windows_bounded_def bump_total_def bump_blocked_def)
  have b3: "windows_bounded ((bump_total s)\<lparr>blocked_users := bl\<rparr>)" for bl
    using assms by (simp add: windows_bounded_def bump_total_def)
  have cfg: "0 \<le> commands_per_minute (bump_total s)" "0 \<le> tasks_per_hour (bump_total s)"
    using assms by (simp_all add: bump_total_def)
  show ?thesis
    using b b2 check_window_bounded[OF _ _ b3] check_window_bounded[OF cfg b] cfg
    by (simp add: is_rate_limited_def Let_def split: option.splits)
qed

lemma snd_run_requests_Cons:
  "snd (run_requests ((now, u, ct) # cs) s) = snd (run_requests cs (snd (is_rate_limited now u ct s)))"
  by (simp split: prod.splits)

lemma run_requests_config:
  "commands_per_minute (snd (run_requests cs s)) = commands_per_minute s \<and>
   tasks_per_hour (snd (run_requests cs s)) = tasks_per_hour s \<and>
   block_duration (snd (run_requests cs s)) = block_duration s"
proof (induction cs arbitrary: s)
  case Nil
  then show ?case by simp
next
  case (Cons c cs)
  obtain now u ct where c: "c = (now, u, ct)" by (cases c) auto
  show ?case
    using Cons.IH[of "snd (is_rate_limited now u ct s)"] is_rate_limited_config[of now u ct s]
    unfolding c snd_run_requests_Cons by simp
qed

lemma run_requests_bounded:
  assumes "0 \<le> commands_per_minute s" "0 \<le> tasks_per_hour s" "windows_bounded s"
  shows "windows_bounded (snd (run_requests cs s))"
  using assms
proof (induction cs arbitrary: s)
  case Nil
  then show ?case by simp
next
  case (Cons c cs)
  obtain now u ct where c: "c = (now, u, ct)" by (cases c) auto
  have "windows_bounded (snd (run_requests cs (snd (is_rate_limited now u ct s))))"
    using Cons.prems is_rate_limited_bounded[of s now u ct]
    by (intro Cons.IH) (simp_all add: is_rate_limited_config)
  then show ?case
    unfolding c snd_run_requests_Cons .
qed

lemma full_window_command:
  assumes "int (length (evict (now - 60) (queue_of (user_commands s) u))) \<ge> commands_per_minute s"
  shows "fst (is_rate_limited now u ''command'' s) \<and>
         (queue_of (user_commands (snd (is_rate_limited now u ''command'' s))) u = queue_of (user_commands s) u \<or>
          queue_of (user_commands (snd (is_rate_limited now u ''command'' s))) u = evict (now - 60) (queue_of (user_commands s) u))"
  using assms
  by (simp add: is_rate_limited_def check_window_def Let_def bump_total_def bump_blocked_def
      queue_of_update split: option.splits)

lemma full_window_task:
  assumes "int (length (evict (now - 3600) (queue_of (user_tasks_created s) u))) \<ge> tasks_per_hour s"
  shows "fst (is_rate_limited now u ''task'' s) \<and>
         (queue_of (user_tasks_created (snd (is_rate_limited now u ''task'' s))) u = queue_of (user_tasks_created s) u \<or>
          queue_of (user_tasks_created (snd (is_rate_limited now u ''task'' s))) u = evict (now - 3600) (queue_of (user_tasks_created s) u))"
  using assms
  by (simp add: is_rate_limited_def check_window_def Let_def bump_total_def bump_blocked_def
      queue_of_update split: option.splits)

text \<open>
  C1.  Start from any limiter state whose windows hold at most the configured number of
  timestamps and whose limits are not negative (the state built by \<^verbatim>\<open>__init__\<close> is one),
  and run any sequence of \<^verbatim>\<open>is_rate_limited\<close> calls.  Then for every user the command
  window holds at most \<open>commands_per_minute\<close> timestamps and the task window at most
  \<open>tasks_per_hour\<close>.  A further request that finds \<open>limit\<close> entries in the evicted
  window is denied, and the window afterwards is the old one or the old one with its
  expired prefix evicted: the timestamp of the request is not appended.
\<close>

theorem window_never_exceeds_limit:
  assumes "0 \<le> commands_per_minute s0" and "0 \<le> tasks_per_hour s0" and "windows_bounded s0"
    and "s = snd (run_requests calls s0)"
  shows "int (length (queue_of (user_commands s) user_id)) \<le> commands_per_minute s0 \<and>
         int (length (queue_of (user_tasks_created s) user_id)) \<le> tasks_per_hour s0 \<and>
         (commands_per_minute s0 \<le> int (length (evict (now - 60) (queue_of (user_commands s) user_id))) \<longrightarrow>
            fst (is_rate_limited now user_id ''command'' s) \<and>
            (queue_of (user_commands (snd (is_rate_limited now user_id ''command'' s))) user_id
               = queue_of (user_commands s) user_id \<or>
             queue_of (user_commands (snd (is_rate_limited now user_id ''command'' s))) user_id
               = evict (now - 60) (queue_of (user_commands s) user_id))) \<and>
         (tasks_per_hour s0 \<le> int (length (evict (now - 3600) (queue_of (user_tasks_created s) user_id))) \<longrightarrow>
            fst (is_rate_limited now user_id ''task'' s) \<and>
            (queue_of (user_tasks_created (snd (is_rate_limited now user_id ''task'' s))) user_id
               = queue_of (user_tasks_created s) user_id \<or>
             queue_of (user_tasks_created (snd (is_rate_limited now user_id ''task'' s))) user_id
               = evict (now - 3600) (queue_of (user_tasks_created s) user_id)))"
proof -
  have cfg: "commands_per_minute s = commands_per_minute s0" "tasks_per_hour s = tasks_per_hour s0"
    using run_requests_config[of calls s0] assms(4) by simp_all
  have wb: "windows_bounded s"
    using run_requests_bounded[OF assms(1-3), of calls] assms(4) by simp
  have c: "int (length (queue_of (user_commands s) user_id)) \<le> commands_per_minute s0"
    using wb assms(1) cfg queue_of_bounded[of "commands_per_minute s0" "user_commands s" user_id]
    by (simp add: windows_bounded_def)
  have t: "int (length (queue_of (user_tasks_created s) user_id)) \<le> tasks_per_hour s0"
    using wb assms(2) cfg queue_of_bounded[of "tasks_per_hour s0" "user_tasks_created s" user_id]
    by (simp add: windows_bounded_def)
  show ?thesis
    using c t full_window_command[of s now user_id] full_window_task[of s now user_id] cfg
    by simp
qed

lemma after_command_burst_eval:
  "after_command_burst =
     \<lparr> user_commands = [(''u'', replicate 30 0)], user_tasks_created = [],
       blocked_users = [(''u'', 310)],
       commands_per_minute = 30, tasks_per_hour = 100, block_duration = 300,
       performance_stats = \<lparr> total_requests = 31, blocked_requests = 1, cleanup_runs = 0 \<rparr> \<rparr>"
  by (simp add: after_command_burst_def command_burst_def RateLimiter_init_def is_rate_limited_def
      check_window_def Let_def queue_of_def bump_total_def bump_blocked_def numeral_eq_Suc)

lemma evict_replicate_keep: "\<not> x < c \<Longrightarrow> evict c (replicate n x) = replicate n x"
  by (cases n) auto

lemma evict_replicate_drop: "x < c \<Longrightarrow> evict c (replicate n x) = []"
  by (induction n) auto

text \<open>Witness for C1: after 30 commands at time 0 the window of user \<open>u\<close> holds 30
  timestamps, and a request at time 20 is denied.\<close>

theorem window_never_exceeds_limit_witness:
  "0 \<le> commands_per_minute RateLimiter_init \<and> 0 \<le> tasks_per_hour RateLimiter_init \<and>
   windows_bounded RateLimiter_init \<and>
   length (queue_of (user_commands after_command_burst) ''u'') = 30 \<and>
   commands_per_minute RateLimiter_init
     \<le> int (length (evict (20 - 60) (queue_of (user_commands after_command_burst) ''u''))) \<and>
   fst (is_rate_limited 20 ''u'' ''command'' after_command_burst)"
proof -
  have h: "0 \<le> commands_per_minute RateLimiter_init" "0 \<le> tasks_per_hour RateLimiter_init"
    "windows_bounded RateLimiter_init"
    by (simp_all add: RateLimiter_init_def windows_bounded_def)
  have q: "queue_of (user_commands after_command_burst) ''u'' = replicate 30 0"
    by (simp add: after_command_burst_eval queue_of_def)
  have e: "commands_per_minute RateLimiter_init
     \<le> int (length (evict (20 - 60) (queue_of (user_commands after_command_burst) ''u'')))"
    by (simp add: q evict_replicate_keep RateLimiter_init_def)
  show ?thesis
    using window_never_exceeds_limit[OF h after_command_burst_def, of "''u''" 20] h e q
    by simp
qed

text \<open>
  C10.  \<^verbatim>\<open>get_stats\<close> reports \<open>active_users\<close> as the size of the command-window map plus
  the size of the task-window map.  With each key once per map, that is the number of
  distinct users in the two maps plus the number of users present in both, so a user with
  entries in both windows is counted twice.
\<close>

theorem active_users_counts_both_maps:
  "active_users (get_stats s) = length (user_commands s) + length (user_tasks_created s) \<and>
   (keys_distinct s \<longrightarrow>
      active_users (get_stats s) =
        card (fst ` set (user_commands s) \<union> fst ` set (user_tasks_created s)) +
        card (fst ` set (user_commands s) \<inter> fst ` set (user_tasks_created s)))"
proof -
  have len: "length xs = card (fst ` set xs)" if "distinct (map fst xs)" for xs :: "time list dict"
    using that distinct_card[of "map fst xs"] by simp
  have un: "card (fst ` set (user_commands s)) + card (fst ` set (user_tasks_created s)) =
      card (fst ` set (user_commands s) \<union> fst ` set (user_tasks_created s)) +
      card (fst ` set (user_commands s) \<inter> fst ` set (user_tasks_created s))"
    by (rule card_Un_Int) simp_all
  have "active_users (get_stats s) = length (user_commands s) + length (user_tasks_created s)"
    by (simp add: get_stats_def)
  then show ?thesis
    using un len[of "user_commands s"] len[of "user_tasks_created s"]
    by (simp add: keys_distinct_def)
qed

lemma one_of_each_eval:
  "one_of_each =
     \<lparr> user_commands = [(''u'', [0])], user_tasks_created = [(''u'', [0])], blocked_users = [],
       commands_per_minute = 30, tasks_per_hour = 100, block_duration = 300,
       performance_stats = \<lparr> total_requests = 2, blocked_requests = 0, cleanup_runs = 0 \<rparr> \<rparr>"
  by (simp add: one_of_each_def RateLimiter_init_def is_rate_limited_def
      check_window_def Let_def queue_of_def bump_total_def bump_blocked_def)

text \<open>Witness for C10: one user with one command and one task creation gives
  \<open>active_users = 2\<close>, while one distinct user is tracked.\<close>

theorem active_users_counts_both_maps_witness:
  "keys_distinct one_of_each \<and> active_users (get_stats one_of_each) = 2 \<and>
   card (fst ` set (user_commands one_of_each) \<union> fst ` set (user_tasks_created one_of_each)) = 1"
  using active_users_counts_both_maps[of one_of_each]
  by (simp add: one_of_each_eval keys_distinct_def)

text \<open>
  C9 (amended).  For a user with no active block and a \<^verbatim>\<open>command_type\<close> other than
  \<open>command\<close> and \<open>task\<close>, \<^verbatim>\<open>is_rate_limited\<close> returns \<open>False\<close>, adds one to
  \<open>total_requests\<close>, leaves both window maps and the configuration unchanged, and
  deletes the user's own expired entry from the block map if there is one; when the user
  has no entry in the block map, the block map is unchanged as well.
\<close>

theorem unknown_kind_frame:
  assumes "command_type \<noteq> ''command''" and "command_type \<noteq> ''task''"
    and "\<forall>until. map_of (blocked_users s) user_id = Some until \<longrightarrow> until \<le> now"
  shows "is_rate_limited now user_id command_type s =
           (False, (bump_total s)\<lparr>blocked_users := AList.delete user_id (blocked_users s)\<rparr>) \<and>
         (map_of (blocked_users s) user_id = None \<longrightarrow>
            is_rate_limited now user_id command_type s = (False, bump_total s))"
proof -
  have d: "AList.delete user_id (blocked_users s) = blocked_users s"
    if "map_of (blocked_users s) user_id = None"
    using that by (simp add: map_of_eq_None_iff)
  have e: "(bump_total s)\<lparr>blocked_users := blocked_users s\<rparr> = bump_total s"
    by (simp add: bump_total_def)
  show ?thesis
    using assms d e
    by (auto simp: is_rate_limited_def check_window_def Let_def bump_total_def split: option.splits)
qed

text \<open>Witness for C9: user \<open>u\<close> was blocked until 310 and asks at 311; user \<open>v\<close> has
  no entry in the block map.\<close>

theorem unknown_kind_frame_witness:
  "map_of (blocked_users after_command_burst) ''u'' = Some 310 \<and>
   is_rate_limited 311 ''u'' ''ping'' after_command_burst =
     (False, (bump_total after_command_burst)\<lparr>blocked_users := []\<rparr>) \<and>
   is_rate_limited 311 ''v'' ''ping'' after_command_burst = (False, bump_total after_command_burst)"
  using unknown_kind_frame[of "''ping''" after_command_burst "''u''" 311]
    unknown_kind_frame[of "''ping''" after_command_burst "''v''" 311]
  by (simp add: after_command_burst_eval bump_total_def)

text \<open>Counterexample to C9 as stated: user \<open>u\<close>, blocked until 310, has no active block
  at 311; the call with kind \<open>ping\<close> is allowed and empties the block map.\<close>

theorem unknown_kind_changes_block_map_counterexample:
  "map_of (blocked_users after_command_burst) ''u'' = Some 310 \<and> (310::real) \<le> 311 \<and>
   fst (is_rate_limited 311 ''u'' ''ping'' after_command_burst) = False \<and>
   blocked_users after_command_burst = [(''u'', 310)] \<and>
   blocked_users (snd (is_rate_limited 311 ''u'' ''ping'' after_command_burst)) = []"
  by (simp add: after_command_burst_eval is_rate_limited_def check_window_def bump_total_def)













lemma task_burst_run:
  "run_requests task_burst RateLimiter_init =
     (replicate 100 False @ [True],
      \<lparr> user_commands = [], user_tasks_created = [(''u'', replicate 100 0)],
        blocked_users = [(''u'', 400)],
        commands_per_minute = 30, tasks_per_hour = 100, block_duration = 300,
        performance_stats = \<lparr> total_requests = 101, blocked_requests = 1, cleanup_runs = 0 \<rparr> \<rparr>)"
  by (simp add: task_burst_def RateLimiter_init_def is_rate_limited_def
      check_window_def Let_def queue_of_def bump_total_def bump_blocked_def numeral_eq_Suc)

lemma evict_all: "\<forall>x\<in>set q. x < c \<Longrightarrow> evict c q = []"
  by (induction q) auto

lemma expired_block_command:
  assumes "map_of (blocked_users s) u = Some until" and "until \<le> now"
  shows "fst (is_rate_limited now u ''command'' s) =
           (commands_per_minute s \<le> int (length (evict (now - 60) (queue_of (user_commands s) u)))) \<and>
         map_of (blocked_users (snd (is_rate_limited now u ''command'' s))) u =
           (if commands_per_minute s \<le> int (length (evict (now - 60) (queue_of (user_commands s) u)))
            then Some (now + of_int (block_duration s)) else None)"
  using assms
  by (simp add: is_rate_limited_def check_window_def Let_def bump_total_def bump_blocked_def
      update_conv' delete_conv')

lemma expired_block_task:
  assumes "map_of (blocked_users s) u = Some until" and "until \<le> now"
  shows "fst (is_rate_limited now u ''task'' s) =
           (tasks_per_hour s \<le> int (length (evict (now - 3600) (queue_of (user_tasks_created s) u)))) \<and>
         map_of (blocked_users (snd (is_rate_limited now u ''task'' s))) u =
           (if tasks_per_hour s \<le> int (length (evict (now - 3600) (queue_of (user_tasks_created s) u)))
            then Some (now + of_int (block_duration s)) else None)"
  using assms
  by (simp add: is_rate_limited_def check_window_def Let_def bump_total_def bump_blocked_def
      update_conv' delete_conv')

text \<open>
  C3 (amended).  Let a user be blocked at time \<open>t\<close>, so that the block map holds
  \<open>t + block_duration\<close> for them, and let a request arrive at that time plus one second.
  If it is a command, \<open>commands_per_minute\<close> is positive, the block lasts at least 60
  seconds and no timestamp of the user's command window is later than \<open>t\<close>, the request is
  allowed and the user's block entry is removed.  If it is a task creation, the expired
  block entry is removed first, and the request is denied exactly when \<open>tasks_per_hour\<close>
  or more timestamps of the task window lie within the last 3600 seconds; the user is then
  blocked again until \<open>now + block_duration\<close>, and has no block entry otherwise.
\<close>

theorem request_after_block_expiry:
  assumes "map_of (blocked_users s) user_id = Some (t + of_int (block_duration s))"
    and "now = t + of_int (block_duration s) + 1"
  shows "(0 < commands_per_minute s \<and> 60 \<le> block_duration s \<and>
          (\<forall>x\<in>set (queue_of (user_commands s) user_id). x \<le> t) \<longrightarrow>
            \<not> fst (is_rate_limited now user_id ''command'' s) \<and>
            map_of (blocked_users (snd (is_rate_limited now user_id ''command'' s))) user_id = None) \<and>
         (fst (is_rate_limited now user_id ''task'' s) \<longleftrightarrow>
            tasks_per_hour s
              \<le> int (length (evict (now - 3600) (queue_of (user_tasks_created s) user_id)))) \<and>
         map_of (blocked_users (snd (is_rate_limited now user_id ''task'' s))) user_id =
           (if fst (is_rate_limited now user_id ''task'' s)
            then Some (now + of_int (block_duration s)) else None)"
proof -
  have le: "t + of_int (block_duration s) \<le> now"
    using assms(2) by simp
  note c = expired_block_command[OF assms(1) le]
  note k = expired_block_task[OF assms(1) le]
  have "evict (now - 60) (queue_of (user_commands s) user_id) = []"
    if "60 \<le> block_duration s" "\<forall>x\<in>set (queue_of (user_commands s) user_id). x \<le> t"
  proof (rule evict_all, rule ballI)
    fix x assume "x \<in> set (queue_of (user_commands s) user_id)"
    then have "x \<le> t" using that(2) by blast
    moreover have "(60::real) \<le> of_int (block_duration s)"
      using that(1) by linarith
    ultimately show "x < now - 60"
      using assms(2) by linarith
  qed
  then show ?thesis
    using c k by auto
qed

text \<open>Witness for C3: user \<open>u\<close> sent 30 commands at time 0 and was blocked at time 10
  for 300 seconds; the command at time 311 is allowed and the block entry is gone.\<close>

theorem request_after_block_expiry_witness:
  "map_of (blocked_users after_command_burst) ''u''
     = Some (10 + of_int (block_duration after_command_burst)) \<and>
   0 < commands_per_minute after_command_burst \<and> 60 \<le> block_duration after_command_burst \<and>
   queue_of (user_commands after_command_burst) ''u'' = replicate 30 0 \<and>
   \<not> fst (is_rate_limited 311 ''u'' ''command'' after_command_burst) \<and>
   map_of (blocked_users (snd (is_rate_limited 311 ''u'' ''command'' after_command_burst))) ''u'' = None"
proof -
  have b: "map_of (blocked_users after_command_burst) ''u''
     = Some (10 + of_int (block_duration after_command_burst))"
    by (simp add: after_command_burst_eval)
  have n: "(311::real) = 10 + of_int (block_duration after_command_burst) + 1"
    by (simp add: after_command_burst_eval)
  have h: "0 < commands_per_minute after_command_burst \<and> 60 \<le> block_duration after_command_burst \<and>
   (\<forall>x\<in>set (queue_of (user_commands after_command_burst) ''u''). x \<le> 10)"
    by (simp add: after_command_burst_eval queue_of_def)
  have q: "queue_of (user_commands after_command_burst) ''u'' = replicate 30 0"
    by (simp add: after_command_burst_eval queue_of_def)
  show ?thesis
    using request_after_block_expiry[OF b n] b h q by blast
qed

text \<open>Counterexample to C3 as stated: user \<open>u\<close> created 100 tasks at time 0 and was
  blocked at time 100 until 400.  The task creation at time 401 is denied, and the user is
  blocked again until 701.\<close>

theorem task_block_not_lifted_counterexample:
  "fst (run_requests task_burst RateLimiter_init) = replicate 100 False @ [True] \<and>
   block_duration after_task_burst = 300 \<and>
   map_of (blocked_users after_task_burst) ''u'' = Some (100 + 300) \<and>
   fst (is_rate_limited (100 + 300 + 1) ''u'' ''task'' after_task_burst) \<and>
   map_of (blocked_users (snd (is_rate_limited (100 + 300 + 1) ''u'' ''task'' after_task_burst))) ''u''
     = Some 701"
proof -
  have s: "after_task_burst = \<lparr> user_commands = [], user_tasks_created = [(''u'', replicate 100 0)],
        blocked_users = [(''u'', 400)],
        commands_per_minute = 30, tasks_per_hour = 100, block_duration = 300,
        performance_stats = \<lparr> total_requests = 101, blocked_requests = 1, cleanup_runs = 0 \<rparr> \<rparr>"
    by (simp add: after_task_burst_def task_burst_run)
  have b: "map_of (blocked_users after_task_burst) ''u'' = Some 400"
    by (simp add: s)
  have q: "evict (401 - 3600) (queue_of (user_tasks_created after_task_burst) ''u'') = replicate 100 0"
    by (simp add: s queue_of_def evict_replicate_keep)
  have "fst (is_rate_limited 401 ''u'' ''task'' after_task_burst) \<and>
     map_of (blocked_users (snd (is_rate_limited 401 ''u'' ''task'' after_task_burst))) ''u'' = Some 701"
  proof -
    have bd: "block_duration after_task_burst = 300" and tph: "tasks_per_hour after_task_burst = 100"
      by (simp_all add: s)
    show ?thesis
      using expired_block_task[OF b, of 401] unfolding q bd tph by simp
  qed
  then show ?thesis
    by (simp add: task_burst_run s)
qed

section \<open>Properties of the recurrence calculator\<close>

lemma div_step:
  fixes y k :: int
  assumes "0 < k"
  shows "y div k = (y - 1) div k + (if y mod k = 0 then 1 else 0)"
proof (cases "y mod k = 0")
  case True
  then have "k dvd y" by (simp add: mod_eq_0_iff_dvd)
  then obtain q where q: "y = k * q" by (rule dvdE)
  have d: "y div k = q"
    using assms by (simp add: q)
  have e: "y - 1 = k * (q - 1) + (k - 1)"
    by (simp add: q right_diff_distrib)
  have "(y - 1) div k = q - 1"
    using assms by (intro int_div_pos_eq[OF e]) simp_all
  then show ?thesis
    using True d by simp
next
  case False
  have r: "0 \<le> y mod k" "y mod k < k"
    using assms by simp_all
  have e: "y - 1 = k * (y div k) + (y mod k - 1)"
    by simp
  have "(y - 1) div k = y div k"
    using r False by (intro int_div_pos_eq[OF e]) simp_all
  then show ?thesis
    using False by simp
qed


lemma mod_100_4: "(y::int) mod 100 = 0 \<Longrightarrow> y mod 4 = 0"
proof -
  assume "y mod 100 = 0"
  then have "100 dvd y" by (simp add: mod_eq_0_iff_dvd)
  then obtain q where "y = 100 * q" by (rule dvdE)
  then have "y = 4 * (25 * q)" by simp
  then have "4 dvd y" by (rule dvdI)
  then show ?thesis by (simp add: mod_eq_0_iff_dvd)
qed

lemma mod_400_100: "(y::int) mod 400 = 0 \<Longrightarrow> y mod 100 = 0"
proof -
  assume "y mod 400 = 0"
  then have "400 dvd y" by (simp add: mod_eq_0_iff_dvd)
  then obtain q where "y = 400 * q" by (rule dvdE)
  then have "y = 100 * (4 * q)" by simp
  then have "100 dvd y" by (rule dvdI)
  then show ?thesis by (simp add: mod_eq_0_iff_dvd)
qed

lemma dby_unfold: "days_before_year (y + 1) = y * 365 + y div 4 - y div 100 + y div 400"
  by (simp add: days_before_year_def)


lemma dby_succ: "days_before_year (y + 1) = days_before_year y + (if is_leap y then 366 else 365)"
proof -
  define a where "a = (y - 1) div 4"
  define b where "b = (y - 1) div 100"
  define c where "c = (y - 1) div 400"
  have a: "y div 4 = a + (if y mod 4 = 0 then 1 else 0)"
    unfolding a_def by (rule div_step) simp
  have b: "y div 100 = b + (if y mod 100 = 0 then 1 else 0)"
    unfolding b_def by (rule div_step) simp
  have c: "y div 400 = c + (if y mod 400 = 0 then 1 else 0)"
    unfolding c_def by (rule div_step) simp
  have l: "days_before_year (y + 1) = y * 365 + y div 4 - y div 100 + y div 400"
    by (rule dby_unfold)
  have r: "days_before_year y = (y - 1) * 365 + a - b + c"
    by (simp only: days_before_year_def a_def b_def c_def)
  have e: "(y - 1) * 365 = y * 365 - 365"
    by (simp add: left_diff_distrib)
  show ?thesis
  proof (cases "y mod 4 = 0")
    case False
    then have "y mod 100 \<noteq> 0" "y mod 400 \<noteq> 0"
      using mod_100_4[of y] mod_400_100[of y] by auto
    then show ?thesis
      unfolding l r e a b c is_leap_def using False by simp
  next
    case m4: True
    show ?thesis
    proof (cases "y mod 100 = 0")
      case False
      then have "y mod 400 \<noteq> 0"
        using mod_400_100[of y] by auto
      then show ?thesis
        unfolding l r e a b c is_leap_def using False m4 by simp
    next
      case m100: True
      show ?thesis
        unfolding l r e a b c is_leap_def using m100 m4 by simp
    qed
  qed
qed


lemma dby_add: "days_before_year y \<le> days_before_year (y + int n)"
proof (induction n)
  case 0
  then show ?case by simp
next
  case (Suc n)
  have e: "y + int (Suc n) = (y + int n) + 1"
    by simp
  have "days_before_year (y + int n) \<le> days_before_year ((y + int n) + 1)"
    unfolding dby_succ by simp
  then show ?case
    unfolding e using Suc by linarith
qed

lemma dby_mono: "y \<le> y' \<Longrightarrow> days_before_year y \<le> days_before_year y'"
  using dby_add[of y "nat (y' - y)"] by simp

lemma dby_10000: "days_before_year 10000 = 3652059"
  by (simp add: days_before_year_def)

lemma upto_1_12: "[1..12] = [1, 2, 3, 4, 5, 6, 7, 8, 9, 10, 11, 12::int]"
  by (simp add: upto_rec_numeral upto_rec1)

lemma month_cases:
  assumes "1 \<le> m" and "m \<le> 12"
  shows "m = 1 \<or> m = 2 \<or> m = 3 \<or> m = 4 \<or> m = 5 \<or> m = 6 \<or> m = 7 \<or> m = 8 \<or> m = 9 \<or> m = 10 \<or>
   m = 11 \<or> m = (12::int)"
proof -
  have "m \<in> set [1..12]"
    using assms by simp
  then show ?thesis
    unfolding upto_1_12 by simp
qed

lemma dbm_succ:
  assumes "1 \<le> m" and "m < 12"
  shows "days_before_month y (m + 1) = days_before_month y m + days_in_month y m"
proof -
  have "m \<le> 12"
    using assms by simp
  from month_cases[OF assms(1) this] assms(2) show ?thesis
    by (elim disjE) (simp_all add: days_before_month_def days_in_month_def)
qed

lemma dbm_last: "days_before_month y 12 + days_in_month y 12 = (if is_leap y then 366 else 365)"
  by (simp add: days_before_month_def days_in_month_def)

lemma dbm_nonneg: "0 \<le> days_before_month y m"
  by (simp add: days_before_month_def)

lemma dbm_dim_le:
  assumes "1 \<le> m" and "m \<le> 12"
  shows "days_before_month y m + days_in_month y m \<le> (if is_leap y then 366 else 365)"
  using month_cases[OF assms]
  by (elim disjE) (simp_all add: days_before_month_def days_in_month_def)

lemma dim_pos: "1 \<le> days_in_month y m"
  by (simp add: days_in_month_def)

lemma wf_next_day: "wf_date d \<Longrightarrow> wf_date (next_day d)"
  using dim_pos[of "year d" "month d + 1"] dim_pos[of "year d + 1" 1]
  by (simp add: wf_date_def next_day_def)

lemma toordinal_next_day:
  assumes "wf_date d"
  shows "toordinal (next_day d) = toordinal d + 1"
proof (cases "day d < days_in_month (year d) (month d)")
  case True
  then show ?thesis
    by (simp add: next_day_def toordinal_def)
next
  case False
  then have last: "day d = days_in_month (year d) (month d)"
    using assms by (simp add: wf_date_def)
  show ?thesis
  proof (cases "month d < 12")
    case True
    have "1 \<le> month d"
      using assms by (simp add: wf_date_def)
    from dbm_succ[OF this True, of "year d"] show ?thesis
      using False True last by (simp add: next_day_def toordinal_def)
  next
    case m: False
    then have m12: "month d = 12"
      using assms by (simp add: wf_date_def)
    have "days_before_month (year d + 1) 1 = 0"
      by (simp add: days_before_month_def)
    then show ?thesis
      using False m last m12 dbm_last[of "year d"] dby_succ[of "year d"]
      by (simp add: next_day_def toordinal_def)
  qed
qed

lemma next_day_fields:
  "hour (next_day d) = hour d" "minute (next_day d) = minute d" "second (next_day d) = second d"
  "microsecond (next_day d) = microsecond d" "utcoffset (next_day d) = utcoffset d"
  by (simp_all add: next_day_def)

lemma wf_shift_days: "wf_date d \<Longrightarrow> wf_date (shift_days n d)"
  by (induction n arbitrary: d) (simp_all add: wf_next_day)

lemma toordinal_shift_days: "wf_date d \<Longrightarrow> toordinal (shift_days n d) = toordinal d + int n"
  by (induction n arbitrary: d) (simp_all add: wf_next_day toordinal_next_day)

lemma shift_days_fields:
  "hour (shift_days n d) = hour d \<and> minute (shift_days n d) = minute d \<and>
   second (shift_days n d) = second d \<and> microsecond (shift_days n d) = microsecond d \<and>
   utcoffset (shift_days n d) = utcoffset d"
  by (induction n arbitrary: d) (simp_all add: next_day_fields)

lemma instant_shift_days:
  assumes "wf_date d"
  shows "instant (shift_days n d) = instant d + int n * 86400000000"
  using toordinal_shift_days[OF assms, of n] shift_days_fields[of n d]
  by (simp add: instant_def algebra_simps)

lemma toordinal_bounds:
  assumes "wf_date d"
  shows "days_before_year (year d) < toordinal d"
    and "toordinal d \<le> days_before_year (year d + 1)"
proof -
  have m: "1 \<le> month d" "month d \<le> 12" "1 \<le> day d"
    "day d \<le> days_in_month (year d) (month d)"
    using assms by (simp_all add: wf_date_def)
  show "days_before_year (year d) < toordinal d"
    using m dbm_nonneg[of "year d" "month d"] by (simp add: toordinal_def)
  show "toordinal d \<le> days_before_year (year d + 1)"
    using m dbm_dim_le[OF m(1,2), of "year d"] dby_succ[of "year d"]
    by (simp add: toordinal_def split: if_splits)
qed

lemma year_in_range_iff:
  assumes "wf_date d"
  shows "year d \<le> 9999 \<longleftrightarrow> toordinal d \<le> 3652059"
proof
  assume "year d \<le> 9999"
  then have "days_before_year (year d + 1) \<le> days_before_year 10000"
    by (intro dby_mono) simp
  then show "toordinal d \<le> 3652059"
    using toordinal_bounds(2)[OF assms] by (simp add: dby_10000)
next
  assume t: "toordinal d \<le> 3652059"
  show "year d \<le> 9999"
  proof (rule ccontr)
    assume "\<not> year d \<le> 9999"
    then have "days_before_year 10000 \<le> days_before_year (year d)"
      by (intro dby_mono) simp
    then show False
      using toordinal_bounds(1)[OF assms] t by (simp add: dby_10000)
  qed
qed

lemma add_days_eq:
  assumes "wf_date d"
  shows "add_days d n =
    (if toordinal d + int n \<le> 3652059 then Inr (shift_days n d) else Inl OverflowError)"
proof -
  have "year (shift_days n d) \<le> 9999 \<longleftrightarrow> toordinal d + int n \<le> 3652059"
    using year_in_range_iff[OF wf_shift_days[OF assms], of n] toordinal_shift_days[OF assms, of n]
    by simp
  then show ?thesis
    by (auto simp: add_days_def Let_def)
qed

lemma valid_wf: "valid_datetime d \<Longrightarrow> wf_date d"
  by (simp add: valid_datetime_def wf_date_def)

lemma lower_names:
  "lower ''daily'' = ''daily''" "lower ''weekly'' = ''weekly''" "lower ''monthly'' = ''monthly''"
  "lower ''DAILY'' = ''daily''"
  by (simp_all add: lower.simps lower_char_def)

lemma improved_eq:
  "calculate_next_deadline_improved d r =
     (case calculate_next_deadline d r of Inr x \<Rightarrow> x | Inl e \<Rightarrow> None)"
proof -
  have "(case x of Inr d \<Rightarrow> Inr (Some d) | Inl ValueError \<Rightarrow> f | Inl e \<Rightarrow> Inl e) =
        (case x of Inr d \<Rightarrow> Inr (Some d) | Inl e \<Rightarrow> f)"
    if "\<forall>e. x \<noteq> Inl e \<or> e = ValueError" for x :: "error + datetime" and f :: "error + datetime option"
    using that by (cases x) auto
  moreover have "\<forall>e. replace_year_month d y m \<noteq> Inl e \<or> e = ValueError" for y m
    by (simp add: replace_year_month_def)
  ultimately show ?thesis
    by (simp add: calculate_next_deadline_improved_def calculate_next_deadline_def Let_def)
qed

lemma next_deadline_daily:
  "lower r = ''daily'' \<Longrightarrow> calculate_next_deadline d r = map_sum id Some (add_days d 1)"
  by (simp add: calculate_next_deadline_def)

lemma next_deadline_weekly:
  "lower r = ''weekly'' \<Longrightarrow> calculate_next_deadline d r = map_sum id Some (add_days d 7)"
  by (simp add: calculate_next_deadline_def)

lemma next_deadline_other:
  "lower r \<noteq> ''daily'' \<Longrightarrow> lower r \<noteq> ''weekly'' \<Longrightarrow> lower r \<noteq> ''monthly'' \<Longrightarrow>
   calculate_next_deadline d r = Inr None"
  by (simp add: calculate_next_deadline_def)

text \<open>
  C7 (amended).  For every valid timezone-aware \<open>d\<close> and every rule, the rule being compared
  in its lower-case form as \<^verbatim>\<open>str.lower\<close> gives it (Unicode case mapping: upper-case letters
  count as their lower-case ones, and the Kelvin sign counts as \<open>k\<close>): with a rule whose
  lower-case form is \<open>daily\<close>, \<^verbatim>\<open>calculate_next_deadline\<close> returns \<open>d\<close> moved one calendar day
  forward, which is the instant of \<open>d\<close> plus 24 hours, provided that day is not after
  9999-12-31, and raises \<^verbatim>\<open>OverflowError\<close> otherwise; with a rule whose lower-case form is
  \<open>weekly\<close>, the same with seven days and 7 times 24 hours; with a rule whose lower-case form
  is none of \<open>daily\<close>, \<open>weekly\<close>, \<open>monthly\<close> it returns \<^verbatim>\<open>None\<close>.  The second definition of
  the function returns the same values, and \<^verbatim>\<open>None\<close> where the first one raises.
\<close>

theorem next_deadline_daily_weekly_other:
  assumes "valid_datetime d"
  shows "(lower rule = ''daily'' \<longrightarrow>
            calculate_next_deadline d rule =
              (if toordinal d + 1 \<le> 3652059 then Inr (Some (shift_days 1 d)) else Inl OverflowError)) \<and>
         (lower rule = ''weekly'' \<longrightarrow>
            calculate_next_deadline d rule =
              (if toordinal d + 7 \<le> 3652059 then Inr (Some (shift_days 7 d)) else Inl OverflowError)) \<and>
         (lower rule \<notin> {''daily'', ''weekly'', ''monthly''} \<longrightarrow>
            calculate_next_deadline d rule = Inr None) \<and>
         instant (shift_days 1 d) = instant d + 24 * 3600 * 1000000 \<and>
         instant (shift_days 7 d) = instant d + 7 * 24 * 3600 * 1000000 \<and>
         utcoffset (shift_days 1 d) = utcoffset d \<and> utcoffset (shift_days 7 d) = utcoffset d \<and>
         calculate_next_deadline_improved d rule =
           (case calculate_next_deadline d rule of Inr x \<Rightarrow> x | Inl e \<Rightarrow> None)"
proof -
  have wf: "wf_date d"
    using assms by (rule valid_wf)
  have a: "lower rule = ''daily'' \<longrightarrow>
            calculate_next_deadline d rule =
              (if toordinal d + 1 \<le> 3652059 then Inr (Some (shift_days 1 d)) else Inl OverflowError)"
    using add_days_eq[OF wf, of 1] by (simp add: next_deadline_daily)
  have b: "lower rule = ''weekly'' \<longrightarrow>
            calculate_next_deadline d rule =
              (if toordinal d + 7 \<le> 3652059 then Inr (Some (shift_days 7 d)) else Inl OverflowError)"
    using add_days_eq[OF wf, of 7] by (simp add: next_deadline_weekly)
  have c: "lower rule \<notin> {''daily'', ''weekly'', ''monthly''} \<longrightarrow>
            calculate_next_deadline d rule = Inr None"
    by (simp add: next_deadline_other)
  have i1: "instant (shift_days 1 d) = instant d + 24 * 3600 * 1000000"
    using instant_shift_days[OF wf, of 1] by simp
  have i7: "instant (shift_days 7 d) = instant d + 7 * 24 * 3600 * 1000000"
    using instant_shift_days[OF wf, of 7] by simp
  show ?thesis
    using a b c i1 i7 shift_days_fields[of 1 d] shift_days_fields[of 7 d] improved_eq[of d rule]
    by blast
qed

lemma lower_ascii:
  "CHR 0xE2 \<notin> set s \<Longrightarrow> CHR 0xC4 \<notin> set s \<Longrightarrow> lower s = map lower_char s"
  by (induction s) (auto simp: lower.simps)

lemma lower_more: "lower ''yearly'' = ''yearly''"
  by (simp add: lower.simps lower_char_def)

lemma lower_kelvin_weekly: "lower kelvin_weekly = ''weekly''"
  by (simp add: kelvin_weekly_def lower.simps lower_char_def)

lemma lower_dotted_daily: "lower dotted_daily = ''dai'' @ [CHR 0xCC, CHR 0x87] @ ''ly''"
  by (simp add: dotted_daily_def lower.simps lower_char_def)

lemma june15_valid: "valid_datetime (mk_datetime 2024 6 15 10 0 25200)"
  by (simp add: valid_datetime_def mk_datetime_def days_in_month_def)

lemma june15_ordinal: "toordinal (mk_datetime 2024 6 15 10 0 25200) = 739052"
  by (simp add: toordinal_def mk_datetime_def days_before_year_def days_before_month_def is_leap_def)

lemma june15_shift_1:
  "next_day (mk_datetime 2024 6 15 10 0 25200) = mk_datetime 2024 6 16 10 0 25200"
  by (simp add: mk_datetime_def next_day_def days_in_month_def)

lemma june15_shift_7:
  "shift_days 7 (mk_datetime 2024 6 15 10 0 25200) = mk_datetime 2024 6 22 10 0 25200"
  by (simp add: numeral_eq_Suc mk_datetime_def next_day_def days_in_month_def)

text \<open>Witness for C7: 2024-06-15T10:00 (UTC+7) with the rules \<open>daily\<close>, \<open>weekly\<close> and
  \<open>yearly\<close>, with \<open>WEEKLY\<close> written with the Kelvin sign, which is a weekly rule, and with
  \<open>DAILY\<close> written with the capital I with dot above, which is no rule.\<close>

theorem next_deadline_daily_weekly_other_witness:
  "valid_datetime (mk_datetime 2024 6 15 10 0 25200) \<and>
   calculate_next_deadline (mk_datetime 2024 6 15 10 0 25200) ''daily''
     = Inr (Some (mk_datetime 2024 6 16 10 0 25200)) \<and>
   calculate_next_deadline (mk_datetime 2024 6 15 10 0 25200) ''weekly''
     = Inr (Some (mk_datetime 2024 6 22 10 0 25200)) \<and>
   calculate_next_deadline (mk_datetime 2024 6 15 10 0 25200) ''yearly'' = Inr None \<and>
   calculate_next_deadline (mk_datetime 2024 6 15 10 0 25200) kelvin_weekly
     = Inr (Some (mk_datetime 2024 6 22 10 0 25200)) \<and>
   calculate_next_deadline (mk_datetime 2024 6 15 10 0 25200) dotted_daily = Inr None"
  using next_deadline_daily_weekly_other[OF june15_valid, of "''daily''"]
    next_deadline_daily_weekly_other[OF june15_valid, of "''weekly''"]
    next_deadline_daily_weekly_other[OF june15_valid, of "''yearly''"]
    next_deadline_daily_weekly_other[OF june15_valid, of kelvin_weekly]
    next_deadline_daily_weekly_other[OF june15_valid, of dotted_daily]
  by (simp add: lower_names lower_more lower_kelvin_weekly lower_dotted_daily june15_ordinal
      june15_shift_1 june15_shift_7 june15_valid)

lemma last_day_valid: "valid_datetime (mk_datetime 9999 12 31 12 0 0)"
  by (simp add: valid_datetime_def mk_datetime_def days_in_month_def)

lemma last_day_daily:
  "calculate_next_deadline (mk_datetime 9999 12 31 12 0 0) ''daily'' = Inl OverflowError"
  by (simp add: next_deadline_daily lower_names add_days_def mk_datetime_def next_day_def
      days_in_month_def)

text \<open>Counterexample to C7 as stated: the rule \<open>DAILY\<close> is not one of \<open>daily\<close>,
  \<open>weekly\<close>, \<open>monthly\<close>, and a next deadline is returned for it; and for the valid
  instant 9999-12-31T12:00 the rule \<open>daily\<close> raises \<^verbatim>\<open>OverflowError\<close> instead of
  returning the instant plus 24 hours.\<close>

theorem next_deadline_uppercase_overflow_counterexample:
  "''DAILY'' \<notin> {''daily'', ''weekly'', ''monthly''} \<and>
   calculate_next_deadline (mk_datetime 2024 6 15 10 0 25200) ''DAILY''
     = Inr (Some (mk_datetime 2024 6 16 10 0 25200)) \<and>
   valid_datetime (mk_datetime 9999 12 31 12 0 0) \<and>
   calculate_next_deadline (mk_datetime 9999 12 31 12 0 0) ''daily'' = Inl OverflowError"
proof -
  have "calculate_next_deadline (mk_datetime 2024 6 15 10 0 25200) ''DAILY''
     = Inr (Some (mk_datetime 2024 6 16 10 0 25200))"
    using add_days_eq[OF valid_wf[OF june15_valid], of 1]
    by (simp add: next_deadline_daily lower_names june15_ordinal june15_shift_1)
  then show ?thesis
    by (simp add: last_day_valid last_day_daily)
qed

lemma jan31_replace: "replace_year_month (mk_datetime 2024 1 31 9 0 off) 2024 2 = Inl ValueError"
  by (simp add: replace_year_month_def mk_datetime_def days_in_month_def is_leap_def)

lemma jan31_shift_30:
  "shift_days 30 (mk_datetime 2024 1 31 9 0 off) = mk_datetime 2024 3 1 9 0 off"
  by (simp add: numeral_eq_Suc next_day_def mk_datetime_def days_in_month_def is_leap_def)

lemma jan31_add_30: "add_days (mk_datetime 2024 1 31 9 0 off) 30 = Inr (mk_datetime 2024 3 1 9 0 off)"
  unfolding add_days_def jan31_shift_30 by (simp add: mk_datetime_def)

lemma next_deadline_monthly:
  "lower r = ''monthly'' \<Longrightarrow>
   calculate_next_deadline d r =
     (case replace_year_month d (if month d + 1 > 12 then year d + 1 else year d)
             (if month d + 1 > 12 then 1 else month d + 1) of
        Inr d' \<Rightarrow> Inr (Some d')
      | Inl e \<Rightarrow> map_sum id Some (add_days d 30))"
  by (simp add: calculate_next_deadline_def Let_def)

text \<open>
  C4 (amended).  For 2024-01-31T09:00 in any time zone and the rule \<open>monthly\<close>,
  \<^verbatim>\<open>replace(year=2024, month=2)\<close> raises \<^verbatim>\<open>ValueError\<close>, since February 31 does not exist,
  and the 30-day fallback returns 2024-03-01T09:00 in the same time zone: 2024 is a leap
  year, so 30 days after January 31 is March 1.  Both definitions of the function agree.
\<close>

theorem monthly_jan31_falls_back_to_march_1:
  "replace_year_month (mk_datetime 2024 1 31 9 0 off) 2024 2 = Inl ValueError \<and>
   add_days (mk_datetime 2024 1 31 9 0 off) 30 = Inr (mk_datetime 2024 3 1 9 0 off) \<and>
   calculate_next_deadline (mk_datetime 2024 1 31 9 0 off) ''monthly''
     = Inr (Some (mk_datetime 2024 3 1 9 0 off)) \<and>
   calculate_next_deadline_improved (mk_datetime 2024 1 31 9 0 off) ''monthly''
     = Some (mk_datetime 2024 3 1 9 0 off)"
proof -
  have m: "month (mk_datetime 2024 1 31 9 0 off) = 1" "year (mk_datetime 2024 1 31 9 0 off) = 2024"
    by (simp_all add: mk_datetime_def)
  have c: "calculate_next_deadline (mk_datetime 2024 1 31 9 0 off) ''monthly''
     = Inr (Some (mk_datetime 2024 3 1 9 0 off))"
    by (simp add: next_deadline_monthly lower_names m jan31_replace jan31_add_30)
  then show ?thesis
    by (simp add: improved_eq jan31_replace jan31_add_30)
qed

text \<open>Witness for C4, at UTC+7.\<close>

theorem monthly_jan31_falls_back_to_march_1_witness:
  "calculate_next_deadline (mk_datetime 2024 1 31 9 0 25200) ''monthly''
     = Inr (Some (mk_datetime 2024 3 1 9 0 25200))"
  using monthly_jan31_falls_back_to_march_1[of 25200] by simp

text \<open>Counterexample to C4 as stated: the result for 2024-01-31T09:00 (UTC+7) and
  \<open>monthly\<close> is not 2024-03-02T09:00.\<close>

theorem monthly_jan31_not_march_2_counterexample:
  "calculate_next_deadline (mk_datetime 2024 1 31 9 0 25200) ''monthly''
     \<noteq> Inr (Some (mk_datetime 2024 3 2 9 0 25200)) \<and>
   calculate_next_deadline_improved (mk_datetime 2024 1 31 9 0 25200) ''monthly''
     \<noteq> Some (mk_datetime 2024 3 2 9 0 25200)"
proof -
  have m: "month (mk_datetime 2024 1 31 9 0 25200) = 1" "year (mk_datetime 2024 1 31 9 0 25200) = 2024"
    by (simp_all add: mk_datetime_def)
  have c: "calculate_next_deadline (mk_datetime 2024 1 31 9 0 25200) ''monthly''
     = Inr (Some (mk_datetime 2024 3 1 9 0 25200))"
    by (simp add: next_deadline_monthly lower_names m jan31_replace jan31_add_30)
  have "mk_datetime 2024 3 1 9 0 25200 \<noteq> mk_datetime 2024 3 2 9 0 25200"
    by (simp add: mk_datetime_def)
  then show ?thesis
    by (simp add: c improved_eq)
qed

section \<open>Properties of the recurring-task scheduler\<close>

lemma insert_assignments_tasks:
  "tasks (insert_assignments n us db) = tasks db \<and>
   next_task_id (insert_assignments n us db) = next_task_id db"
  by (induction us arbitrary: db) simp_all

lemma regenerate_improved_outcome:
  "(case outcome_improved env row of
      Skip \<Rightarrow>
        tasks (regenerate_improved env row db) = tasks db \<and>
        next_task_id (regenerate_improved env row db) = next_task_id db
    | Insert dl prio \<Rightarrow>
        tasks (regenerate_improved env row db) =
          tasks db @ [\<lparr> task_id = next_task_id db, task = task row, deadline = dl,
                        priority = prio, status = ''Pending'', recurring = recurring row,
                        owner_id = owner_id row \<rparr>] \<and>
        next_task_id (regenerate_improved env row db) = Suc (next_task_id db)
    | Abort \<Rightarrow> False)"
  by (simp add: regenerate_improved_def outcome_improved_def insert_task_def Let_def
      insert_assignments_tasks split: sum.splits option.splits)

lemma foldl_regenerate_improved:
  "tasks (foldl (\<lambda>d row. regenerate_improved env row d) db rows) =
     tasks db @ copies (outcome_improved env) (next_task_id db) rows \<and>
   next_task_id (foldl (\<lambda>d row. regenerate_improved env row d) db rows) =
     next_task_id db + length (copies (outcome_improved env) (next_task_id db) rows)"
proof (induction rows arbitrary: db)
  case Nil
  then show ?case by simp
next
  case (Cons row rows)
  show ?case
    using Cons.IH[of "regenerate_improved env row db"] regenerate_improved_outcome[of env row db]
    by (cases "outcome_improved env row") simp_all
qed

lemma regenerate_outcome:
  "(case outcome_of env row of
      Skip \<Rightarrow> regenerate env row db = Inr db
    | Insert dl prio \<Rightarrow>
        regenerate env row db =
          Inr (db\<lparr>tasks := tasks db @ [\<lparr> task_id = next_task_id db, task = task row, deadline = dl,
                        priority = prio, status = ''Pending'', recurring = recurring row,
                        owner_id = owner_id row \<rparr>],
                  next_task_id := Suc (next_task_id db)\<rparr>)
    | Abort \<Rightarrow> (\<exists>e. regenerate env row db = Inl e))"
  by (simp add: regenerate_def outcome_of_def insert_task_def Let_def
      split: sum.splits option.splits)

lemma recurring_task_rows_copies:
  "tasks (snd (recurring_task_rows env rows db)) =
     tasks db @ copies (outcome_of env) (next_task_id db) rows \<and>
   next_task_id (snd (recurring_task_rows env rows db)) =
     next_task_id db + length (copies (outcome_of env) (next_task_id db) rows)"
proof (induction rows arbitrary: db)
  case Nil
  then show ?case by simp
next
  case (Cons row rows)
  show ?case
  proof (cases "outcome_of env row")
    case Skip
    then show ?thesis
      using Cons.IH[of db] regenerate_outcome[of env row db] by simp
  next
    case (Insert dl prio)
    then have "regenerate env row db =
          Inr (db\<lparr>tasks := tasks db @ [\<lparr> task_id = next_task_id db, task = task row, deadline = dl,
                        priority = prio, status = ''Pending'', recurring = recurring row,
                        owner_id = owner_id row \<rparr>],
                  next_task_id := Suc (next_task_id db)\<rparr>)" (is "_ = Inr ?db'")
      using regenerate_outcome[of env row db] by simp
    then show ?thesis
      using Cons.IH[of ?db'] Insert by simp
  next
    case Abort
    then obtain e where "regenerate env row db = Inl e"
      using regenerate_outcome[of env row db] by auto
    then show ?thesis
      using Abort by simp
  qed
qed

lemma copies_not_completed: "filter completed_recurring (copies f n rows) = []"
  by (induction rows arbitrary: n) (simp_all add: completed_recurring_def split: outcome.splits)

lemma length_copies: "length (copies f n rows) = length (copies f m rows)"
  by (induction rows arbitrary: n m) (auto split: outcome.splits)

text \<open>
  C2 (amended).  A run of the scheduler tick appends one new \<open>Pending\<close> task for every
  completed recurring task that it regenerates (in the second definition: whose next
  deadline is not after now; in the first: for which a next deadline is computed, up to the
  first exception).  The new tasks are not completed, and the source tasks stay completed
  and recurring.  So a second run in immediate succession, with the completed recurring
  tasks unchanged, appends the same copies again under fresh keys: after two runs there
  are two new tasks per regenerated source task.
\<close>

theorem scheduler_inserts_a_copy_on_every_run:
  fixes env :: "'tz environment"
  assumes "sources = filter completed_recurring (tasks db)"
    and "k = length (copies (outcome_improved env) (next_task_id db) sources)"
    and "j = length (copies (outcome_of env) (next_task_id db) sources)"
  shows "tasks (recurring_task_loop_improved env db) =
           tasks db @ copies (outcome_improved env) (next_task_id db) sources \<and>
         filter completed_recurring (tasks (recurring_task_loop_improved env db)) = sources \<and>
         tasks (recurring_task_loop_improved env (recurring_task_loop_improved env db)) =
           tasks db @ copies (outcome_improved env) (next_task_id db) sources
                    @ copies (outcome_improved env) (next_task_id db + k) sources \<and>
         length (tasks (recurring_task_loop_improved env (recurring_task_loop_improved env db))) =
           length (tasks db) + 2 * k \<and>
         tasks (snd (recurring_task_loop env db)) =
           tasks db @ copies (outcome_of env) (next_task_id db) sources \<and>
         tasks (snd (recurring_task_loop env (snd (recurring_task_loop env db)))) =
           tasks db @ copies (outcome_of env) (next_task_id db) sources
                    @ copies (outcome_of env) (next_task_id db + j) sources \<and>
         length (tasks (snd (recurring_task_loop env (snd (recurring_task_loop env db))))) =
           length (tasks db) + 2 * j"
proof -
  let ?f = "outcome_improved env" and ?g = "outcome_of env"
  let ?n = "next_task_id db"
  let ?db1 = "recurring_task_loop_improved env db"
  let ?dc1 = "snd (recurring_task_loop env db)"
  have t1: "tasks ?db1 = tasks db @ copies ?f ?n sources"
    and n1: "next_task_id ?db1 = ?n + k"
    using foldl_regenerate_improved[of env db sources] assms
    by (simp_all add: recurring_task_loop_improved_def)
  have s1: "filter completed_recurring (tasks ?db1) = sources"
    unfolding t1 using assms(1) by (simp add: copies_not_completed)
  have t2: "tasks (recurring_task_loop_improved env ?db1) =
      tasks db @ copies ?f ?n sources @ copies ?f (?n + k) sources"
    using foldl_regenerate_improved[of env ?db1 sources] s1 t1 n1
    by (simp add: recurring_task_loop_improved_def)
  have l2: "length (tasks (recurring_task_loop_improved env ?db1)) = length (tasks db) + 2 * k"
    unfolding t2 using assms(2) length_copies[of ?f "?n + k" sources ?n] by simp
  have u1: "tasks ?dc1 = tasks db @ copies ?g ?n sources"
    and m1: "next_task_id ?dc1 = ?n + j"
    using recurring_task_rows_copies[of env sources db] assms
    by (simp_all add: recurring_task_loop_def)
  have r1: "filter completed_recurring (tasks ?dc1) = sources"
    unfolding u1 using assms(1) by (simp add: copies_not_completed)
  have u2: "tasks (snd (recurring_task_loop env ?dc1)) =
      tasks db @ copies ?g ?n sources @ copies ?g (?n + j) sources"
    using recurring_task_rows_copies[of env sources ?dc1] r1 u1 m1
    by (simp add: recurring_task_loop_def)
  have v2: "length (tasks (snd (recurring_task_loop env ?dc1))) = length (tasks db) + 2 * j"
    unfolding u2 using assms(3) length_copies[of ?g "?n + j" sources ?n] by simp
  show ?thesis
    using t1 s1 t2 l2 u1 u2 v2 by blast
qed

lemma iso_june16: "isoformat_utc (mk_datetime 2024 6 16 3 0 0) = ''2024-06-16T03:00:00+00:00''"
  by (simp add: isoformat_utc_def mk_datetime_def pad2_def pad4_def digit_char_def)

lemma june15_utc_daily:
  "calculate_next_deadline (mk_datetime 2024 6 15 3 0 0) ''daily''
     = Inr (Some (mk_datetime 2024 6 16 3 0 0))"
  by (simp add: calculate_next_deadline_def lower.simps lower_char_def add_days_def
      mk_datetime_def next_day_def days_in_month_def)

lemma due_june16:
  "instant (mk_datetime 2024 6 16 3 0 0) \<le> instant (mk_datetime 2024 7 1 0 0 0)"
  by (simp add: instant_def toordinal_def mk_datetime_def days_before_year_def
      days_before_month_def is_leap_def)

lemma plants_outcome_improved:
  "outcome_improved utc_environment plants_row = Insert ''2024-06-16T03:00:00+00:00'' 2"
  by (simp add: outcome_improved_def utc_environment_def plants_row_def improved_eq
      june15_utc_daily due_june16 iso_june16)

lemma plants_outcome_of:
  "outcome_of utc_environment plants_row = Insert ''2024-06-16T03:00:00+00:00'' 0"
  by (simp add: outcome_of_def utc_environment_def plants_row_def june15_utc_daily iso_june16)

lemma plants_sources: "filter completed_recurring (tasks plants_db) = [plants_row]"
  by (simp add: plants_db_def plants_row_def completed_recurring_def)

lemma plants_copies_improved:
  "copies (outcome_improved utc_environment) n [plants_row] = [plants_copy n 2]"
  by (simp add: plants_outcome_improved) (simp add: plants_row_def plants_copy_def)

lemma plants_copies:
  "copies (outcome_of utc_environment) n [plants_row] = [plants_copy n 0]"
  by (simp add: plants_outcome_of) (simp add: plants_row_def plants_copy_def)

text \<open>Witness for C2: one completed daily task; after two runs the table has three rows.\<close>

theorem scheduler_inserts_a_copy_on_every_run_witness:
  "filter completed_recurring (tasks plants_db) = [plants_row] \<and>
   length (copies (outcome_improved utc_environment) (next_task_id plants_db) [plants_row]) = 1 \<and>
   length (copies (outcome_of utc_environment) (next_task_id plants_db) [plants_row]) = 1 \<and>
   length (tasks (recurring_task_loop_improved utc_environment
                    (recurring_task_loop_improved utc_environment plants_db))) = 3 \<and>
   length (tasks (snd (recurring_task_loop utc_environment
                         (snd (recurring_task_loop utc_environment plants_db))))) = 3"
proof -
  have s: "[plants_row] = filter completed_recurring (tasks plants_db)"
    by (simp only: plants_sources)
  have k: "1 = length (copies (outcome_improved utc_environment) (next_task_id plants_db) [plants_row])"
    by (simp only: plants_copies_improved) simp
  have j: "1 = length (copies (outcome_of utc_environment) (next_task_id plants_db) [plants_row])"
    by (simp only: plants_copies) simp
  have l: "length (tasks plants_db) = 1"
    by (simp add: plants_db_def)
  note th = scheduler_inserts_a_copy_on_every_run[OF s k j]
  have l4: "length (tasks (recurring_task_loop_improved utc_environment
                    (recurring_task_loop_improved utc_environment plants_db))) =
      length (tasks plants_db) + 2 * 1"
    using th by blast
  have l7: "length (tasks (snd (recurring_task_loop utc_environment
                         (snd (recurring_task_loop utc_environment plants_db))))) =
      length (tasks plants_db) + 2 * 1"
    using th by blast
  show ?thesis
    using s[symmetric] k[symmetric] j[symmetric] l4 l7 unfolding l by simp
qed

text \<open>Counterexample to C2 as stated: the store holds one completed daily task with
  deadline 2024-06-15T03:00 UTC.  The first run inserts a copy with deadline
  2024-06-16T03:00 UTC, and the second run inserts a second copy of it, in both definitions
  of the loop.\<close>

theorem scheduler_second_run_duplicates_counterexample:
  "filter completed_recurring (tasks plants_db) = [plants_row] \<and>
   tasks (recurring_task_loop_improved utc_environment plants_db)
     = [plants_row, plants_copy 2 2] \<and>
   tasks (recurring_task_loop_improved utc_environment
            (recurring_task_loop_improved utc_environment plants_db))
     = [plants_row, plants_copy 2 2, plants_copy 3 2] \<and>
   tasks (snd (recurring_task_loop utc_environment plants_db))
     = [plants_row, plants_copy 2 0] \<and>
   tasks (snd (recurring_task_loop utc_environment
                 (snd (recurring_task_loop utc_environment plants_db))))
     = [plants_row, plants_copy 2 0, plants_copy 3 0]"
proof -
  let ?e = utc_environment
  let ?db1 = "recurring_task_loop_improved ?e plants_db"
  let ?dc1 = "snd (recurring_task_loop ?e plants_db)"
  have n: "next_task_id plants_db = 2" and t: "tasks plants_db = [plants_row]"
    by (simp_all add: plants_db_def)
  have e1: "?db1 = foldl (\<lambda>d row. regenerate_improved ?e row d) plants_db [plants_row]"
    by (simp only: recurring_task_loop_improved_def plants_sources)
  note f1 = foldl_regenerate_improved[of ?e plants_db "[plants_row]", folded e1,
      unfolded plants_copies_improved n t]
  have a1: "tasks ?db1 = [plants_row, plants_copy 2 2]" and a2: "next_task_id ?db1 = 3"
    using f1 by simp_all
  have a3: "filter completed_recurring (tasks ?db1) = [plants_row]"
    unfolding a1 by (simp add: completed_recurring_def plants_row_def plants_copy_def)
  have e2: "recurring_task_loop_improved ?e ?db1 =
      foldl (\<lambda>d row. regenerate_improved ?e row d) ?db1 [plants_row]"
    by (simp only: recurring_task_loop_improved_def[of ?e ?db1] a3)
  note f2 = foldl_regenerate_improved[of ?e ?db1 "[plants_row]", folded e2,
      unfolded plants_copies_improved a1 a2]
  have a4: "tasks (recurring_task_loop_improved ?e ?db1)
      = [plants_row, plants_copy 2 2, plants_copy 3 2]"
    using f2 by simp
  have g1: "recurring_task_loop ?e plants_db = recurring_task_rows ?e [plants_row] plants_db"
    by (simp only: recurring_task_loop_def plants_sources)
  note h1 = recurring_task_rows_copies[of ?e "[plants_row]" plants_db, folded g1,
      unfolded plants_copies n t]
  have b1: "tasks ?dc1 = [plants_row, plants_copy 2 0]" and b2: "next_task_id ?dc1 = 3"
    using h1 by simp_all
  have b3: "filter completed_recurring (tasks ?dc1) = [plants_row]"
    unfolding b1 by (simp add: completed_recurring_def plants_row_def plants_copy_def)
  have g2: "recurring_task_loop ?e ?dc1 = recurring_task_rows ?e [plants_row] ?dc1"
    by (simp only: recurring_task_loop_def[of ?e ?dc1] b3)
  note h2 = recurring_task_rows_copies[of ?e "[plants_row]" ?dc1, folded g2,
      unfolded plants_copies b1 b2]
  have b4: "tasks (snd (recurring_task_loop ?e ?dc1))
      = [plants_row, plants_copy 2 0, plants_copy 3 0]"
    using h2 by simp
  show ?thesis
    using plants_sources a1 a4 b1 b4 by blast
qed

section \<open>Properties of state persistence\<close>

lemma update_absent: "k \<notin> fst ` set d \<Longrightarrow> AList.update k v d = d @ [(k, v)]"
  by (induction d) auto

lemma foldl_update_distinct:
  "distinct (map fst (acc @ xs)) \<Longrightarrow>
   foldl (\<lambda>d (k, v). AList.update k v d) acc xs = acc @ xs"
proof (induction xs arbitrary: acc)
  case Nil
  then show ?case by simp
next
  case (Cons x xs)
  obtain k v where x: "x = (k, v)" by (cases x)
  have "k \<notin> fst ` set acc"
    using Cons.prems by (auto simp: x)
  then have u: "AList.update k v acc = acc @ [(k, v)]"
    by (rule update_absent)
  have "distinct (map fst ((acc @ [(k, v)]) @ xs))"
    using Cons.prems by (simp add: x)
  from Cons.IH[OF this] show ?case
    by (simp add: x u)
qed

lemma py_dict_distinct: "distinct (map fst members) \<Longrightarrow> py_dict members = members"
  using foldl_update_distinct[of "[]" members] by (simp add: py_dict_def)

lemma load_queues_arrays:
  "distinct (map fst acc @ map fst xs) \<Longrightarrow>
   load_queues (map (\<lambda>(uid, q). (uid, JArr (map JFloat q))) xs) acc =
     (acc @ map (\<lambda>(uid, q). (uid, map JFloat q)) xs, None)"
proof (induction xs arbitrary: acc)
  case Nil
  then show ?case by simp
next
  case (Cons x xs)
  obtain k q where x: "x = (k, q)" by (cases x)
  have "k \<notin> fst ` set acc"
    using Cons.prems by (auto simp: x)
  then have u: "AList.update k (map JFloat q) acc = acc @ [(k, map JFloat q)]"
    by (rule update_absent)
  have "distinct (map fst (acc @ [(k, map JFloat q)]) @ map fst xs)"
    using Cons.prems by (simp add: x)
  from Cons.IH[OF this] show ?case
    by (simp add: x u py_iter_def)
qed

lemma keys_map_snd: "map fst (map (\<lambda>(uid, q). (uid, f q)) xs) = map fst xs"
  by (induction xs) auto

lemma foldl_invariant:
  assumes "P d" and "\<And>d k. P d \<Longrightarrow> P (step d k)"
  shows "P (foldl step d ks)"
  using assms(1) by (induction ks arbitrary: d) (simp_all add: assms(2))

lemma distinct_cleanup_queues:
  "distinct (map fst d) \<Longrightarrow> distinct (map fst (cleanup_queues c d))"
  unfolding cleanup_queues_def
  by (rule foldl_invariant)
    (simp_all add: cleanup_queue_step_def Let_def distinct_update distinct_delete split: option.splits)

lemma distinct_cleanup_blocks:
  "distinct (map fst d) \<Longrightarrow> distinct (map fst (cleanup_blocks now d))"
  unfolding cleanup_blocks_def
  by (rule foldl_invariant)
    (simp_all add: cleanup_block_step_def distinct_delete split: option.splits)

lemma keys_distinct_init: "keys_distinct RateLimiter_init"
  by (simp add: keys_distinct_def RateLimiter_init_def)

lemma keys_distinct_check_window:
  "keys_distinct s \<Longrightarrow> keys_distinct (snd (check_window now u ct s))"
  by (simp add: keys_distinct_def check_window_def Let_def bump_blocked_def distinct_update)

lemma keys_distinct_is_rate_limited:
  assumes "keys_distinct s"
  shows "keys_distinct (snd (is_rate_limited now u ct s))"
proof -
  have a: "keys_distinct (bump_total s)" "keys_distinct (bump_blocked (bump_total s))"
    using assms by (simp_all add: keys_distinct_def bump_total_def bump_blocked_def)
  have b: "keys_distinct ((bump_total s)\<lparr>blocked_users := AList.delete u (blocked_users (bump_total s))\<rparr>)"
    using assms by (simp add: keys_distinct_def bump_total_def distinct_delete)
  show ?thesis
    using a keys_distinct_check_window[OF a(1)] keys_distinct_check_window[OF b]
    by (simp add: is_rate_limited_def Let_def split: option.splits)
qed

lemma keys_distinct_apply_operation:
  "keys_distinct s \<Longrightarrow> keys_distinct (apply_operation op s)"
proof (cases op)
  case (Request now u ct)
  assume "keys_distinct s"
  then show ?thesis
    unfolding Request by (simp add: keys_distinct_is_rate_limited)
next
  case (Cleanup now)
  assume "keys_distinct s"
  then show ?thesis
    unfolding Cleanup
    by (simp add: keys_distinct_def cleanup_old_entries_def distinct_cleanup_queues
        distinct_cleanup_blocks)
next
  case (Unblock u)
  assume "keys_distinct s"
  then show ?thesis
    unfolding Unblock
    by (simp add: keys_distinct_def ratelimiter_unblock_def distinct_delete split: option.splits)
next
  case (SetLimit t v)
  assume "keys_distinct s"
  then show ?thesis
    unfolding SetLimit by (simp add: keys_distinct_def ratelimiter_set_def)
qed

lemma keys_distinct_run_operations:
  "keys_distinct s \<Longrightarrow> keys_distinct (run_operations ops s)"
  unfolding run_operations_def
  by (rule foldl_invariant) (simp_all add: keys_distinct_apply_operation)

lemma snapshot_get:
  "py_get (snapshot s) ''user_commands'' dflt =
     Inr (JObj (map (\<lambda>(uid, q). (uid, JArr (map JFloat q))) (user_commands s)))"
  "py_get (snapshot s) ''user_tasks_created'' dflt =
     Inr (JObj (map (\<lambda>(uid, q). (uid, JArr (map JFloat q))) (user_tasks_created s)))"
  "py_get (snapshot s) ''blocked_users'' dflt =
     Inr (JObj (map (\<lambda>(uid, until). (uid, JFloat until)) (blocked_users s)))"
  "py_get (snapshot s) ''performance_stats'' dflt =
     Inr (JObj [(''total_requests'', JInt (total_requests (performance_stats s))),
                (''blocked_requests'', JInt (blocked_requests (performance_stats s))),
                (''cleanup_runs'', JInt (cleanup_runs (performance_stats s)))])"
  "py_get (snapshot s) ''config'' dflt =
     Inr (JObj [(''commands_per_minute'', JInt (commands_per_minute s)),
                (''tasks_per_hour'', JInt (tasks_per_hour s)),
                (''block_duration'', JInt (block_duration s))])"
  by (simp_all add: py_get_def snapshot_def py_dict_def)

lemma fst_comp_pair: "fst \<circ> (\<lambda>(uid, q). (uid, f q)) = fst"
  by (auto simp: fun_eq_iff)

lemma load_config_snapshot:
  "load_config (snapshot s) d =
     (d\<lparr>py_commands_per_minute := JInt (commands_per_minute s),
        py_tasks_per_hour := JInt (tasks_per_hour s),
        py_block_duration := JInt (block_duration s)\<rparr>, None)"
  by (simp add: load_config_def snapshot_get) (simp add: py_get_def py_dict_def)

lemma stats_update_snapshot:
  "dict_update
     (JObj [(''total_requests'', JInt a), (''blocked_requests'', JInt b), (''cleanup_runs'', JInt c)])
     [(JStr ''total_requests'', x), (JStr ''blocked_requests'', y), (JStr ''cleanup_runs'', z)] =
   ([(JStr ''total_requests'', JInt a), (JStr ''blocked_requests'', JInt b),
     (JStr ''cleanup_runs'', JInt c)], None)"
  by (simp add: dict_update_def py_dict_def norm_key_def)

lemma load_stats_snapshot:
  assumes "py_performance_stats d =
    [(JStr ''total_requests'', x), (JStr ''blocked_requests'', y), (JStr ''cleanup_runs'', z)]"
  shows "load_stats (snapshot s) d =
     (d\<lparr>py_performance_stats := py_performance_stats (dynamic s),
        py_commands_per_minute := JInt (commands_per_minute s),
        py_tasks_per_hour := JInt (tasks_per_hour s),
        py_block_duration := JInt (block_duration s)\<rparr>, None)"
  by (simp add: load_stats_def snapshot_get assms stats_update_snapshot load_config_snapshot
      dynamic_def)

lemma load_blocked_snapshot:
  assumes "py_performance_stats d =
    [(JStr ''total_requests'', x), (JStr ''blocked_requests'', y), (JStr ''cleanup_runs'', z)]"
    and "distinct (map fst (blocked_users s))"
  shows "load_blocked (snapshot s) d =
     (d\<lparr>py_blocked_users := py_blocked_users (dynamic s),
        py_performance_stats := py_performance_stats (dynamic s),
        py_commands_per_minute := JInt (commands_per_minute s),
        py_tasks_per_hour := JInt (tasks_per_hour s),
        py_block_duration := JInt (block_duration s)\<rparr>, None)"
proof -
  have k: "distinct (map fst (map (\<lambda>(uid, until). (uid, JFloat until)) (blocked_users s)))"
    using assms(2) by (simp add: fst_comp_pair)
  have i: "py_items (JObj (map (\<lambda>(uid, until). (uid, JFloat until)) (blocked_users s))) =
      Inr (py_blocked_users (dynamic s))"
    by (simp add: py_items_def py_dict_distinct[OF k] dynamic_def)
  have p: "py_performance_stats (d\<lparr>py_blocked_users := b\<rparr>) =
    [(JStr ''total_requests'', x), (JStr ''blocked_requests'', y), (JStr ''cleanup_runs'', z)]" for b
    using assms(1) by simp
  show ?thesis
    by (simp add: load_blocked_def snapshot_get i load_stats_snapshot[OF p])
qed

lemma queue_items:
  assumes "distinct (map fst xs)"
  shows "py_items (JObj (map (\<lambda>(uid, q). (uid, JArr (map JFloat q))) xs)) =
      Inr (map (\<lambda>(uid, q). (uid, JArr (map JFloat q))) xs)"
proof -
  have "distinct (map fst (map (\<lambda>(uid, q). (uid, JArr (map JFloat q))) xs))"
    using assms by (simp add: fst_comp_pair)
  then show ?thesis
    by (simp add: py_items_def py_dict_distinct)
qed

lemma load_tasks_snapshot:
  assumes "py_performance_stats d =
    [(JStr ''total_requests'', x), (JStr ''blocked_requests'', y), (JStr ''cleanup_runs'', z)]"
    and "distinct (map fst (blocked_users s))" and "distinct (map fst (user_tasks_created s))"
    and "py_user_tasks_created d = []"
  shows "load_tasks (snapshot s) d =
     (d\<lparr>py_user_tasks_created := py_user_tasks_created (dynamic s),
        py_blocked_users := py_blocked_users (dynamic s),
        py_performance_stats := py_performance_stats (dynamic s),
        py_commands_per_minute := JInt (commands_per_minute s),
        py_tasks_per_hour := JInt (tasks_per_hour s),
        py_block_duration := JInt (block_duration s)\<rparr>, None)"
proof -
  have q: "load_queues (map (\<lambda>(uid, q). (uid, JArr (map JFloat q))) (user_tasks_created s)) [] =
      (py_user_tasks_created (dynamic s), None)"
    using load_queues_arrays[of "[]" "user_tasks_created s"] assms(3) by (simp add: dynamic_def)
  have p: "py_performance_stats (d\<lparr>py_user_tasks_created := b\<rparr>) =
    [(JStr ''total_requests'', x), (JStr ''blocked_requests'', y), (JStr ''cleanup_runs'', z)]" for b
    using assms(1) by simp
  show ?thesis
    by (simp add: load_tasks_def snapshot_get queue_items[OF assms(3)] assms(4) q
        load_blocked_snapshot[OF p assms(2)])
qed

lemma load_commands_snapshot:
  assumes "py_performance_stats d =
    [(JStr ''total_requests'', x), (JStr ''blocked_requests'', y), (JStr ''cleanup_runs'', z)]"
    and "keys_distinct s"
    and "py_user_tasks_created d = []" and "py_user_commands d = []"
  shows "load_commands (snapshot s) d =
     (d\<lparr>py_user_commands := py_user_commands (dynamic s),
        py_user_tasks_created := py_user_tasks_created (dynamic s),
        py_blocked_users := py_blocked_users (dynamic s),
        py_performance_stats := py_performance_stats (dynamic s),
        py_commands_per_minute := JInt (commands_per_minute s),
        py_tasks_per_hour := JInt (tasks_per_hour s),
        py_block_duration := JInt (block_duration s)\<rparr>, None)"
proof -
  have k: "distinct (map fst (user_commands s))" "distinct (map fst (user_tasks_created s))"
    "distinct (map fst (blocked_users s))"
    using assms(2) by (simp_all add: keys_distinct_def)
  have q: "load_queues (map (\<lambda>(uid, q). (uid, JArr (map JFloat q))) (user_commands s)) [] =
      (py_user_commands (dynamic s), None)"
    using load_queues_arrays[of "[]" "user_commands s"] k(1) by (simp add: dynamic_def)
  have p: "py_performance_stats (d\<lparr>py_user_commands := b\<rparr>) =
    [(JStr ''total_requests'', x), (JStr ''blocked_requests'', y), (JStr ''cleanup_runs'', z)]" for b
    using assms(1) by simp
  have t: "py_user_tasks_created (d\<lparr>py_user_commands := b\<rparr>) = []" for b
    using assms(3) by simp
  show ?thesis
    by (simp add: load_commands_def snapshot_get queue_items[OF k(1)] assms(4) q
        load_tasks_snapshot[OF p k(3) k(2) t])
qed

lemma load_snapshot:
  assumes "keys_distinct s"
  shows "load_state (Content (snapshot s)) (dynamic s0) =
    (dynamic s, [LogInfo ''Rate limiter state loaded.''])"
proof -
  let ?d = "(dynamic s0)\<lparr>py_user_commands := [], py_user_tasks_created := []\<rparr>"
  have p: "py_performance_stats ?d =
    [(JStr ''total_requests'', JInt (total_requests (performance_stats s0))),
     (JStr ''blocked_requests'', JInt (blocked_requests (performance_stats s0))),
     (JStr ''cleanup_runs'', JInt (cleanup_runs (performance_stats s0)))]"
    by (simp add: dynamic_def)
  have e: "py_user_tasks_created ?d = []" "py_user_commands ?d = []"
    by simp_all
  have "load_commands (snapshot s) ?d = (dynamic s, None)"
    unfolding load_commands_snapshot[OF p assms e] by (simp add: dynamic_def)
  then show ?thesis
    by (simp add: load_state_def)
qed

text \<open>C5. For every state reachable from the initial one, saving it (the write succeeding) and
  loading the written snapshot into a limiter in any state yields exactly the saved state: the same
  per-user windows in the same order, the same block map, the same performance counters and the
  same configuration; the load logs success.\<close>

theorem save_then_load_round_trip:
  "load_state (fst (save_state True (run_operations ops RateLimiter_init) file)) (dynamic s0) =
     (dynamic (run_operations ops RateLimiter_init), [LogInfo ''Rate limiter state loaded.''])"
proof -
  have "keys_distinct (run_operations ops RateLimiter_init)"
    by (rule keys_distinct_run_operations) (rule keys_distinct_init)
  then show ?thesis
    by (simp add: save_state_def load_snapshot)
qed

lemma two_commands_run:
  "run_operations two_commands RateLimiter_init =
     \<lparr> user_commands = [(''u'', [0, 5])], user_tasks_created = [], blocked_users = [],
       commands_per_minute = 30, tasks_per_hour = 100, block_duration = 300,
       performance_stats = \<lparr> total_requests = 2, blocked_requests = 0, cleanup_runs = 0 \<rparr> \<rparr>"
  by (simp add: run_operations_def two_commands_def RateLimiter_init_def is_rate_limited_def
      check_window_def Let_def queue_of_def bump_total_def)

text \<open>C5 at a concrete input: after two commands of one user, the loaded state holds the window
  \<^verbatim>\<open>[0.0, 5.0]\<close>, the counters 2, 0, 0 and the default limits.\<close>

theorem save_then_load_round_trip_witness:
  "load_state (fst (save_state True (run_operations two_commands RateLimiter_init) Absent))
     (dynamic RateLimiter_init) =
     (\<lparr> py_user_commands = [(''u'', [JFloat 0, JFloat 5])], py_user_tasks_created = [],
        py_blocked_users = [],
        py_performance_stats =
          [(JStr ''total_requests'', JInt 2), (JStr ''blocked_requests'', JInt 0),
           (JStr ''cleanup_runs'', JInt 0)],
        py_commands_per_minute = JInt 30, py_tasks_per_hour = JInt 100,
        py_block_duration = JInt 300 \<rparr>,
      [LogInfo ''Rate limiter state loaded.''])"
  using save_then_load_round_trip[of two_commands Absent RateLimiter_init]
  by (simp add: two_commands_run dynamic_def)





end
